theory Spec2Isabelle
  imports Complex_Main "HOL-Library.List_Lexorder" "HOL-Library.Char_ord" "HOL-Library.AList"
begin

chapter \<open>Fusion360-ExportForPrinting: the export command\<close>

text \<open>
  A shallow embedding of \<^verbatim>\<open>src/commands/ExportCommand.py\<close>: the configuration
  file (\<^verbatim>\<open>to_dict\<close>, \<^verbatim>\<open>emit_file\<close>, \<^verbatim>\<open>parse_file\<close>), the two assembly
  traversals (\<^verbatim>\<open>recursiveEnumerateComponents\<close>, \<^verbatim>\<open>recursiveCountOccurences\<close>)
  and the export driver (\<^verbatim>\<open>export\<close>). Python exceptions are values of type
  \<open>error\<close>; a function that can raise returns \<open>error + 'a\<close>. Strings are compared
  as Python compares them, lexicographically by character code.
\<close>

section \<open>Definitions\<close>

subsection \<open>The assembly tree of the host application\<close>

text \<open>
  \<^verbatim>\<open>adsk.fusion.Component\<close> and \<^verbatim>\<open>adsk.fusion.Occurrence\<close>, restricted to what the
  code reads: a component has a name and its top-level occurrences, an occurrence has
  a name (\<^verbatim>\<open>"Part:1"\<close>), the component it instantiates and its child occurrences.
  \<open>cmp_id\<close> is the identity of the host object; the mutable properties of a
  component (revision id, move features) live in the host state below, keyed by it.
\<close>

datatype component = Component (cmp_id: nat) (cmp_name: string) (occurrences: "occurrence list")
and occurrence = Occurrence (occ_name: string) (component: component) (childOccurrences: "occurrence list")

text \<open>The argument \<^verbatim>\<open>rootOcc: Occurrence | Component\<close>, told apart by \<^verbatim>\<open>isinstance\<close>.\<close>

datatype root = IsComponent component | IsOccurrence occurrence

fun root_size :: "root \<Rightarrow> nat" where
  "root_size (IsComponent c) = size c"
| "root_size (IsOccurrence ro) = size ro"

lemma size_child_occurrence: "x \<in> set xs \<Longrightarrow> size (x :: occurrence) < Suc (size_list size xs)"
  by (induction xs) auto

text \<open>
  \<^verbatim>\<open>recursiveEnumerateComponents\<close> (lines 117-134). \<^verbatim>\<open>rv.update(d)\<close> is \<open>rv ++ d\<close>;
  the \<^verbatim>\<open>for\<close> loop over the occurrences is a left fold.
\<close>

function recursiveEnumerateComponents :: "root \<Rightarrow> (string \<rightharpoonup> component)" where
  "recursiveEnumerateComponents (IsComponent c) =
     foldl (\<lambda>rv occ. rv ++ recursiveEnumerateComponents (IsOccurrence occ))
       [cmp_name c \<mapsto> c] (occurrences c)"
| "recursiveEnumerateComponents (IsOccurrence ro) =
     foldl (\<lambda>rv occ. rv ++ recursiveEnumerateComponents (IsOccurrence occ))
       [cmp_name (component ro) \<mapsto> component ro] (childOccurrences ro)"
  by pat_completeness auto

termination recursiveEnumerateComponents
proof (relation "measure root_size")
  show "wf (measure root_size)" by simp
next
  fix c rv occ
  assume "occ \<in> set (occurrences c)"
  then show "(IsOccurrence occ, IsComponent c) \<in> measure root_size"
    using size_child_occurrence [of occ "occurrences c"] by (cases c) simp
next
  fix ro rv occ
  assume "occ \<in> set (childOccurrences ro)"
  then show "(IsOccurrence occ, IsOccurrence ro) \<in> measure root_size"
    using size_child_occurrence [of occ "childOccurrences ro"] by (cases ro) simp
qed

text \<open>
  The equations rewrite under their own \<open>\<lambda>\<close>, so they are taken out of the simpset;
  the two lemmas below unfold one constructor at a time.
\<close>

declare recursiveEnumerateComponents.simps [simp del]





subsection \<open>Counting occurrences\<close>

text \<open>
  \<^verbatim>\<open>recursiveCountOccurences\<close> (lines 422-436). The \<^verbatim>\<open>defaultdict(int)\<close> is an
  association list in insertion order, since the inner loop iterates over
  \<^verbatim>\<open>child.items()\<close>; a missing key reads as 0. \<^verbatim>\<open>rv[key] += d\<close> is \<open>add_to\<close>,
  the first loop is \<open>count_direct\<close>, the inner loop of the second is \<open>add_child\<close>:
  it reads \<^verbatim>\<open>rv[occ.component.name]\<close> anew for every key.
\<close>

type_synonym counts = "(string \<times> int) list"

definition lookup0 :: "counts \<Rightarrow> string \<Rightarrow> int" where
  "lookup0 rv k = (case map_of rv k of None \<Rightarrow> 0 | Some v \<Rightarrow> v)"

definition add_to :: "string \<Rightarrow> int \<Rightarrow> counts \<Rightarrow> counts" where
  "add_to k d rv = AList.update k (lookup0 rv k + d) rv"

definition endswith :: "string \<Rightarrow> string \<Rightarrow> bool" where
  "endswith s suffix = (length suffix \<le> length s \<and> drop (length s - length suffix) s = suffix)"

definition count_direct :: "occurrence list \<Rightarrow> counts" where
  "count_direct occs = foldl (\<lambda>rv occ. add_to (cmp_name (component occ)) 1 rv) [] occs"

definition add_child :: "string \<Rightarrow> counts \<Rightarrow> counts \<Rightarrow> counts" where
  "add_child parent child rv =
     foldl (\<lambda>rv (key, count). add_to key (count * lookup0 rv parent) rv) rv child"

function recursiveCountOccurences :: "occurrence list \<Rightarrow> counts" where
  "recursiveCountOccurences occs =
     foldl (\<lambda>rv occ.
        if endswith (occ_name occ) '':1''
        then add_child (cmp_name (component occ)) (recursiveCountOccurences (childOccurrences occ)) rv
        else rv)
       (count_direct occs) occs"
  by pat_completeness auto

termination recursiveCountOccurences
proof (relation "measure (size_list size)")
  show "wf (measure (size_list size))" by simp
next
  fix occs :: "occurrence list" and rv :: counts and occ
  assume "occ \<in> set occs"
  then have "size_list size (childOccurrences occ) < size_list size occs"
  proof (induction occs)
    case Nil then show ?case by simp
  next
    case (Cons a occs) then show ?case by (cases occ) auto
  qed
  then show "(childOccurrences occ, occs) \<in> measure (size_list size)" by simp
qed

declare recursiveCountOccurences.simps [simp del]

text \<open>One turn of the second loop.\<close>

definition count_step :: "counts \<Rightarrow> occurrence \<Rightarrow> counts" where
  "count_step rv occ =
     (if endswith (occ_name occ) '':1''
      then add_child (cmp_name (component occ)) (recursiveCountOccurences (childOccurrences occ)) rv
      else rv)"

text \<open>
  The count as the specification words it: the direct occurrences of the component
  in the list, plus, for every occurrence of the list whose name ends in \<^verbatim>\<open>:1\<close>, the
  component's count in that occurrence's sub-tree times the number of direct
  occurrences of the occurrence's own component.
\<close>


definition direct_occurrences :: "occurrence list \<Rightarrow> string \<Rightarrow> int" where
  "direct_occurrences occs k = int (length (filter (\<lambda>occ. cmp_name (component occ) = k) occs))"

definition representatives :: "occurrence list \<Rightarrow> occurrence list" where
  "representatives occs = filter (\<lambda>occ. endswith (occ_name occ) '':1'') occs"

definition count_as_claimed :: "occurrence list \<Rightarrow> string \<Rightarrow> int" where
  "count_as_claimed occs k =
     direct_occurrences occs k +
     (\<Sum>occ \<leftarrow> representatives occs.
        lookup0 (recursiveCountOccurences (childOccurrences occ)) k *
        direct_occurrences occs (cmp_name (component occ)))"

text \<open>An occurrence with its sub-tree cut off unless its name ends in \<^verbatim>\<open>:1\<close>.\<close>

definition prune :: "occurrence \<Rightarrow> occurrence" where
  "prune occ = (if endswith (occ_name occ) '':1'' then occ
                else Occurrence (occ_name occ) (component occ) [])"

text \<open>
  No component that has a \<^verbatim>\<open>:1\<close> occurrence in the list is counted inside the
  sub-tree of a \<^verbatim>\<open>:1\<close> occurrence of the list.
\<close>

definition independent_parents :: "occurrence list \<Rightarrow> bool" where
  "independent_parents occs =
     (\<forall>a \<in> set (representatives occs). \<forall>b \<in> set (representatives occs).
        cmp_name (component b) \<notin> fst ` set (recursiveCountOccurences (childOccurrences a)))"

subsection \<open>Errors and JSON values\<close>

text \<open>
  The Python exceptions the code can raise; \<open>OSError\<close> stands for its subclasses
  raised by the file system (\<^verbatim>\<open>IsADirectoryError\<close> or \<^verbatim>\<open>PermissionError\<close> from
  \<^verbatim>\<open>unlink\<close>, \<^verbatim>\<open>FileExistsError\<close> or \<^verbatim>\<open>NotADirectoryError\<close> from
  \<^verbatim>\<open>mkdir\<close>). \<open>IllTyped\<close> is not one of them: the
  dataclasses declare field types that Python does not check, and the records below
  carry exactly the declared types, so a file value that does not fit its field
  (\<^verbatim>\<open>"count": "3"\<close>) has no image in the model and is reported as \<open>IllTyped\<close>,
  after every error the source itself raises.
\<close>

datatype error = AttributeError | AssertionError | TypeError | ValueError | KeyError | OverflowError
  | OSError | IllTyped

text \<open>
  What \<^verbatim>\<open>json.loads\<close> returns: a \<^verbatim>\<open>dict\<close> is an association list in insertion
  order with distinct keys. A float is a rational, an infinity or NaN (the parser
  accepts \<^verbatim>\<open>Infinity\<close> and \<^verbatim>\<open>NaN\<close>).
\<close>

datatype pyfloat = Finite rat | PosInf | NegInf | NaN

datatype json = JNull | JBool bool | JInt int | JFloat pyfloat | JStr string
  | JArr "json list" | JObj "(string \<times> json) list"

text \<open>
  Strings are lists of characters with code points below 256, so text outside Latin-1
  has no image in the model.

  \<^verbatim>\<open>int(x)\<close> on a string (CPython 3.11): white space at both ends is dropped, one
  sign is allowed, the decimal digits may be separated by single underscores, and more
  than 4300 digits are refused (the default of \<^verbatim>\<open>sys.set_int_max_str_digits\<close>), all
  with \<^verbatim>\<open>ValueError\<close>. The white space dropped is tab, line feed, vertical tab, form
  feed, carriage return and space, and the two Unicode spaces of Latin-1 above ASCII,
  U+0085 and U+00A0, which \<^verbatim>\<open>int\<close> turns into spaces first; the separators U+001C to
  U+001F are not dropped. No character of Latin-1 other than \<^verbatim>\<open>0\<close> to \<^verbatim>\<open>9\<close> is a
  decimal digit.
\<close>

definition is_space :: "char \<Rightarrow> bool" where
  "is_space c = (c \<in> set [CHR 0x09, CHR 0x0A, CHR 0x0B, CHR 0x0C, CHR 0x0D, CHR '' '', CHR 0x85, CHR 0xA0])"

definition strip :: "string \<Rightarrow> string" where
  "strip s = rev (dropWhile is_space (rev (dropWhile is_space s)))"

definition digit_val :: "char \<Rightarrow> int option" where
  "digit_val c = (if CHR ''0'' \<le> c \<and> c \<le> CHR ''9'' then Some (int (of_char c) - 48) else None)"

fun digits_val :: "int \<Rightarrow> string \<Rightarrow> int option" where
  "digits_val acc [] = Some acc"
| "digits_val acc [c] = (case digit_val c of None \<Rightarrow> None | Some d \<Rightarrow> Some (10 * acc + d))"
| "digits_val acc (c # c' # cs) =
     (case digit_val c of None \<Rightarrow> None
      | Some d \<Rightarrow> if c' = CHR ''_'' then (if cs = [] then None else digits_val (10 * acc + d) cs)
                  else digits_val (10 * acc + d) (c' # cs))"

definition max_str_digits :: nat where
  "max_str_digits = 4300"

definition unsigned_of_str :: "string \<Rightarrow> int option" where
  "unsigned_of_str s =
     (if s = [] \<or> length (filter (\<lambda>c. c \<noteq> CHR ''_'') s) > max_str_digits then None
      else digits_val 0 s)"

definition int_of_str :: "string \<Rightarrow> int option" where
  "int_of_str s =
     (case strip s of
        [] \<Rightarrow> None
      | c # cs \<Rightarrow>
          if c = CHR ''-'' then map_option uminus (unsigned_of_str cs)
          else if c = CHR ''+'' then unsigned_of_str cs
          else unsigned_of_str (c # cs))"

text \<open>\<^verbatim>\<open>int(x)\<close> on a float truncates towards zero.\<close>

definition float_to_int :: "rat \<Rightarrow> int" where
  "float_to_int r = (if 0 \<le> r then \<lfloor>r\<rfloor> else \<lceil>r\<rceil>)"

definition py_int :: "json \<Rightarrow> error + int" where
  "py_int v =
     (case v of
        JInt n \<Rightarrow> Inr n
      | JBool b \<Rightarrow> Inr (if b then 1 else 0)
      | JFloat f \<Rightarrow>
          (case f of Finite r \<Rightarrow> Inr (float_to_int r) | NaN \<Rightarrow> Inl ValueError | _ \<Rightarrow> Inl OverflowError)
      | JStr s \<Rightarrow> (case int_of_str s of None \<Rightarrow> Inl ValueError | Some n \<Rightarrow> Inr n)
      | _ \<Rightarrow> Inl TypeError)"

subsection \<open>The export configuration\<close>

text \<open>The dataclasses \<^verbatim>\<open>ComponentExportConfig\<close> and \<^verbatim>\<open>ExportConfig\<close> (lines 31-66).\<close>

record ComponentExportConfig =
  name :: "string option"
  to :: "string option"
  up :: "string option"
  fmt :: "string option"
  count :: "int option"

record ExportConfig =
  cfg_fmt :: "string option"
  components :: "ComponentExportConfig list"
  modified :: "string option"

definition json_of_str :: "string option \<Rightarrow> json" where
  "json_of_str v = (case v of None \<Rightarrow> JNull | Some s \<Rightarrow> JStr s)"

definition json_of_int :: "int option \<Rightarrow> json" where
  "json_of_int v = (case v of None \<Rightarrow> JNull | Some n \<Rightarrow> JInt n)"

text \<open>
  Reading a data attribute of a \<^verbatim>\<open>ComponentExportConfig\<close>: the five fields exist,
  any other name raises \<^verbatim>\<open>AttributeError\<close>.
\<close>

definition attribute :: "ComponentExportConfig \<Rightarrow> string \<Rightarrow> error + json" where
  "attribute self a =
     (if a = ''name'' then Inr (json_of_str (name self))
      else if a = ''to'' then Inr (json_of_str (to self))
      else if a = ''up'' then Inr (json_of_str (up self))
      else if a = ''fmt'' then Inr (json_of_str (fmt self))
      else if a = ''count'' then Inr (json_of_int (count self))
      else Inl AttributeError)"

text \<open>\<^verbatim>\<open>ComponentExportConfig.to_dict\<close> (lines 45-57); line 51 reads \<^verbatim>\<open>self.orientation\<close>.\<close>

definition to_dict :: "ComponentExportConfig \<Rightarrow> error + (string \<times> json) list" where
  "to_dict self =
     (let rv = [(''name'', json_of_str (name self)), (''to'', json_of_str (to self))] in
      case attribute self ''orientation'' of
        Inl e \<Rightarrow> Inl e
      | Inr orientation \<Rightarrow>
          let rv = (if orientation \<noteq> JNull then rv @ [(''up'', json_of_str (up self))] else rv);
              rv = (if fmt self \<noteq> None then rv @ [(''fmt'', json_of_str (fmt self))] else rv);
              rv = (if count self \<noteq> None then rv @ [(''count'', json_of_int (count self))] else rv)
          in Inr rv)"

text \<open>Running a function that may raise over a list: the first error ends the loop.\<close>

fun collect :: "('a \<Rightarrow> error + 'b) \<Rightarrow> 'a list \<Rightarrow> error + 'b list" where
  "collect f [] = Inr []"
| "collect f (x # xs) =
     (case f x of
        Inl e \<Rightarrow> Inl e
      | Inr y \<Rightarrow> (case collect f xs of Inl e \<Rightarrow> Inl e | Inr ys \<Rightarrow> Inr (y # ys)))"

text \<open>
  \<^verbatim>\<open>sorted(..., key=lambda x: x["name"])\<close>: a stable sort by the name; with two or
  more elements every key is compared, and comparing \<^verbatim>\<open>None\<close> raises \<^verbatim>\<open>TypeError\<close>.
\<close>

definition subscript :: "(string \<times> json) list \<Rightarrow> string \<Rightarrow> error + json" where
  "subscript d k = (case map_of d k of None \<Rightarrow> Inl KeyError | Some v \<Rightarrow> Inr v)"

definition name_key :: "json \<Rightarrow> string option" where
  "name_key v = (case v of JStr s \<Rightarrow> Some s | _ \<Rightarrow> None)"

definition sorted_by_name :: "(string \<times> json) list list \<Rightarrow> error + (string \<times> json) list list" where
  "sorted_by_name ds =
     (case collect (\<lambda>d. subscript d ''name'') ds of
        Inl e \<Rightarrow> Inl e
      | Inr keys \<Rightarrow>
          if length ds \<le> 1 then Inr ds
          else if \<exists>k \<in> set keys. name_key k = None then Inl TypeError
          else Inr (sort_key (\<lambda>d. the (name_key (the (map_of d ''name'')))) ds))"

text \<open>\<^verbatim>\<open>emit_file\<close> (lines 103-113); the result is the JSON value written to the file.\<close>

definition emit_file :: "ExportConfig \<Rightarrow> error + json" where
  "emit_file config =
     (case collect to_dict (components config) of
        Inl e \<Rightarrow> Inl e
      | Inr ds \<Rightarrow>
          (case sorted_by_name ds of
             Inl e \<Rightarrow> Inl e
           | Inr sorted_ds \<Rightarrow>
               Inr (JObj [(''v'', JInt 1), (''fmt'', json_of_str (cfg_fmt config)),
                          (''components'', JArr (map JObj sorted_ds))])))"

text \<open>
  \<^verbatim>\<open>parse_file\<close> (lines 81-100). Its arguments are the JSON value read from the file,
  the file's modification time in ISO format, and \<^verbatim>\<open>counts\<close>. \<open>iterate\<close> is the
  \<^verbatim>\<open>for\<close> loop's view of a JSON value; \<open>keyword_arguments\<close> and \<open>construct\<close> are
  \<^verbatim>\<open>ComponentExportConfig(**cmp_dict)\<close>, the first with the errors Python raises, the
  second fitting the values to the declared field types.
\<close>

definition dict_get :: "(string \<times> json) list \<Rightarrow> string \<Rightarrow> json \<Rightarrow> json" where
  "dict_get d k dflt = (case map_of d k of None \<Rightarrow> dflt | Some v \<Rightarrow> v)"

definition iterate :: "json \<Rightarrow> error + json list" where
  "iterate v =
     (case v of
        JArr xs \<Rightarrow> Inr xs
      | JObj kv \<Rightarrow> Inr (map (\<lambda>(k, _). JStr k) kv)
      | JStr s \<Rightarrow> Inr (map (\<lambda>c. JStr [c]) s)
      | _ \<Rightarrow> Inl TypeError)"

definition field_names :: "string list" where
  "field_names = [''name'', ''to'', ''up'', ''fmt'', ''count'']"

definition keyword_arguments :: "json \<Rightarrow> error + (string \<times> json) list" where
  "keyword_arguments cmp_dict =
     (case cmp_dict of
        JObj kv \<Rightarrow> if \<forall>k \<in> set (map fst kv). k \<in> set field_names then Inr kv else Inl TypeError
      | _ \<Rightarrow> Inl TypeError)"

definition str_field :: "json \<Rightarrow> string option option" where
  "str_field v = (case v of JNull \<Rightarrow> Some None | JStr s \<Rightarrow> Some (Some s) | _ \<Rightarrow> None)"

definition int_field :: "json \<Rightarrow> int option option" where
  "int_field v = (case v of JNull \<Rightarrow> Some None | JInt n \<Rightarrow> Some (Some n) | _ \<Rightarrow> None)"

definition construct :: "(string \<times> json) list \<Rightarrow> error + ComponentExportConfig" where
  "construct kw =
     (case (str_field (dict_get kw ''name'' JNull), str_field (dict_get kw ''to'' JNull),
            str_field (dict_get kw ''up'' JNull), str_field (dict_get kw ''fmt'' JNull),
            int_field (dict_get kw ''count'' JNull)) of
        (Some n, Some t, Some u, Some f, Some c) \<Rightarrow>
          Inr \<lparr>name = n, to = t, up = u, fmt = f, count = c\<rparr>
      | _ \<Rightarrow> Inl IllTyped)"

definition default_count :: "counts option \<Rightarrow> ComponentExportConfig \<Rightarrow> ComponentExportConfig" where
  "default_count counts cmp =
     (case (count cmp, counts) of
        (None, Some cs) \<Rightarrow>
          cmp\<lparr>count := Some (case name cmp of None \<Rightarrow> 1
                                | Some n \<Rightarrow> (case map_of cs n of None \<Rightarrow> 1 | Some c \<Rightarrow> c))\<rparr>
      | _ \<Rightarrow> cmp)"

definition parse_file :: "json \<Rightarrow> string \<Rightarrow> counts option \<Rightarrow> error + ExportConfig" where
  "parse_file obj mtime counts =
     (case obj of
        JObj kv \<Rightarrow>
          (case py_int (dict_get kv ''v'' (JInt 0)) of
             Inl e \<Rightarrow> Inl e
           | Inr version \<Rightarrow>
               if version \<noteq> 1 then Inl AssertionError
               else
                 (case iterate (dict_get kv ''components'' (JArr [])) of
                    Inl e \<Rightarrow> Inl e
                  | Inr items \<Rightarrow>
                      (case collect keyword_arguments items of
                         Inl e \<Rightarrow> Inl e
                       | Inr kws \<Rightarrow>
                           (case collect construct kws of
                              Inl e \<Rightarrow> Inl e
                            | Inr cmps \<Rightarrow>
                                (case str_field (dict_get kv ''fmt'' JNull) of
                                   None \<Rightarrow> Inl IllTyped
                                 | Some f \<Rightarrow>
                                     Inr \<lparr>cfg_fmt = f,
                                          components = map (default_count counts) cmps,
                                          modified = Some mtime\<rparr>)))))
      | _ \<Rightarrow> Inl AttributeError)"

text \<open>
  A component \<open>lists\<close> a file entry when each of its fields, read back as JSON, is
  the entry's value (\<^verbatim>\<open>null\<close> when the entry has no such key); an entry is
  \<open>well_typed\<close> when its keys are field names and its values fit the field types.
\<close>

definition lists :: "ComponentExportConfig \<Rightarrow> (string \<times> json) list \<Rightarrow> bool" where
  "lists cmp kw \<longleftrightarrow>
     json_of_str (name cmp) = dict_get kw ''name'' JNull \<and>
     json_of_str (to cmp) = dict_get kw ''to'' JNull \<and>
     json_of_str (up cmp) = dict_get kw ''up'' JNull \<and>
     json_of_str (fmt cmp) = dict_get kw ''fmt'' JNull \<and>
     json_of_int (count cmp) = dict_get kw ''count'' JNull"

definition well_typed :: "(string \<times> json) list \<Rightarrow> bool" where
  "well_typed kw \<longleftrightarrow>
     (\<forall>k \<in> set (map fst kw). k \<in> set field_names) \<and>
     str_field (dict_get kw ''name'' JNull) \<noteq> None \<and>
     str_field (dict_get kw ''to'' JNull) \<noteq> None \<and>
     str_field (dict_get kw ''up'' JNull) \<noteq> None \<and>
     str_field (dict_get kw ''fmt'' JNull) \<noteq> None \<and>
     int_field (dict_get kw ''count'' JNull) \<noteq> None"
subsection \<open>The host application and the file system\<close>

definition VALID_ORIENTATIONS :: "string list" where
  "VALID_ORIENTATIONS = [''x'', ''y'', ''z'', ''-x'', ''-y'', ''-z'']"

text \<open>
  The manifest (\<^verbatim>\<open>version_control\<close>): a dictionary from file key to entry, as
  \<^verbatim>\<open>json.loads\<close> returns it. The file, when it exists, holds a JSON object, as the
  annotation of \<^verbatim>\<open>version_control\<close> says and as \<^verbatim>\<open>export\<close> writes it; its values are
  arbitrary JSON.
\<close>

type_synonym manifest = "(string \<times> json) list"

text \<open>
  What \<^verbatim>\<open>export\<close> does to the world, in order: the calls into the host application
  and the file system, and the writes to the manifest dictionary (\<open>Store\<close>, line 212).
  \<open>AddMove c f\<close> and \<open>DeleteMove c f\<close> name the component and the move feature.
\<close>

datatype call =
    Show nat
  | SetProgress nat
  | Unlink string
  | Store string json
  | AddMove nat nat
  | MakeParent string
  | Execute nat string
  | DeleteMove nat nat
  | Hide

text \<open>
  What the code reads from outside and cannot compute: \<^verbatim>\<open>pathlib\<close>'s join followed by
  \<^verbatim>\<open>str\<close>, the \<^verbatim>\<open>parents\<close> of a path (its directory first, then that one's, up to
  the anchor), the name of the root component, the clock
  (\<^verbatim>\<open>datetime.now().isoformat()\<close> in the turn of the \<open>i\<close>-th component), the cancel
  button (\<^verbatim>\<open>progressDialog.wasCancelled\<close> as read at line 267 in that turn), and the
  revision id the host gives a component whose features changed.
\<close>

record env =
  path_join :: "string \<Rightarrow> string \<Rightarrow> string"
  parents :: "string \<Rightarrow> string list"
  root_comp_name :: string
  now :: "nat \<Rightarrow> string"
  was_cancelled :: "nat \<Rightarrow> bool"
  next_revision :: "string \<Rightarrow> string"

text \<open>
  The state \<^verbatim>\<open>export\<close> reads and changes: the disk, which has at a path a regular
  file, a directory or nothing; the manifest file (kept apart from the disk of mesh
  files); per component, by \<open>cmp_id\<close>, the revision id and the move features; the
  progress value of the dialog; the calls made so far. Calls into the host
  application are taken to succeed; the state left behind by a raised exception is not
  modelled, an error is just \<open>Inl\<close>.
\<close>

datatype node = File | Directory

record host =
  disk :: "string \<Rightarrow> node option"
  manifest_file :: "manifest option"
  revision :: "nat \<Rightarrow> string"
  move_features :: "nat \<Rightarrow> nat list"
  progress :: nat
  calls :: "call list"

definition call :: "call \<Rightarrow> host \<Rightarrow> host" where
  "call c h = h\<lparr>calls := calls h @ [c]\<rparr>"

definition set_progress :: "nat \<Rightarrow> host \<Rightarrow> host" where
  "set_progress i h = call (SetProgress i) (h\<lparr>progress := i\<rparr>)"

text \<open>
  \<^verbatim>\<open>Path.exists\<close> is true of a file and of a directory. \<^verbatim>\<open>Path.unlink\<close> removes a
  regular file and raises on a directory (\<^verbatim>\<open>IsADirectoryError\<close> or
  \<^verbatim>\<open>PermissionError\<close>, by platform) and on a missing path.
  \<^verbatim>\<open>filepath.parent.mkdir(parents=True, exist_ok=True)\<close> makes the directory of the
  path and every missing one above it, and raises when one of them is there as a
  regular file. The host's exporter writes the mesh file at the path; the code ignores
  the value \<^verbatim>\<open>execute\<close> returns, and nothing can be written over a directory.
\<close>

definition path_exists :: "host \<Rightarrow> string \<Rightarrow> bool" where
  "path_exists h p \<longleftrightarrow> disk h p \<noteq> None"

definition unlink :: "string \<Rightarrow> host \<Rightarrow> error + host" where
  "unlink p h =
     (if disk h p = Some File then Inr (call (Unlink p) (h\<lparr>disk := (disk h)(p := None)\<rparr>))
      else Inl OSError)"

definition mkdir_parent :: "env \<Rightarrow> string \<Rightarrow> host \<Rightarrow> error + host" where
  "mkdir_parent e p h =
     (if \<exists>a \<in> set (parents e p). disk h a = Some File then Inl OSError
      else Inr (call (MakeParent p)
                  (h\<lparr>disk := (\<lambda>q. if q \<in> set (parents e p) then Some Directory else disk h q)\<rparr>)))"

definition execute :: "nat \<Rightarrow> string \<Rightarrow> host \<Rightarrow> host" where
  "execute c p h =
     call (Execute c p)
       (h\<lparr>disk := (if disk h p = Some Directory then disk h else (disk h)(p \<mapsto> File))\<rparr>)"

text \<open>
  \<^verbatim>\<open>moveFeats.add\<close> appends a feature the component does not have yet and
  \<^verbatim>\<open>deleteMe\<close> removes it; both change the component's revision id (the \<^verbatim>\<open>TODO\<close> at
  lines 199-202).
\<close>

definition fresh_feature :: "nat list \<Rightarrow> nat" where
  "fresh_feature fs = Suc (foldr max fs 0)"

definition add_move :: "env \<Rightarrow> nat \<Rightarrow> host \<Rightarrow> nat \<times> host" where
  "add_move e c h =
     (let f = fresh_feature (move_features h c) in
      (f, call (AddMove c f)
            (h\<lparr>move_features := (move_features h)(c := move_features h c @ [f]),
               revision := (revision h)(c := next_revision e (revision h c))\<rparr>)))"

definition deleteMe :: "env \<Rightarrow> nat \<Rightarrow> nat \<Rightarrow> host \<Rightarrow> host" where
  "deleteMe e c f h =
     call (DeleteMove c f)
       (h\<lparr>move_features := (move_features h)(c := filter (\<lambda>g. g \<noteq> f) (move_features h c)),
          revision := (revision h)(c := next_revision e (revision h c))\<rparr>)"

subsection \<open>The export driver\<close>

text \<open>
  \<^verbatim>\<open>f"{cfg.count}"\<close> for an integer: its decimal digits, with a minus sign.
\<close>

definition digit_char :: "nat \<Rightarrow> char" where
  "digit_char d = ''0123456789'' ! d"

function digits :: "nat \<Rightarrow> string" where
  "digits n = (if n < 10 then [digit_char n] else digits (n div 10) @ [digit_char (n mod 10)])"
  by pat_completeness auto
termination by (relation "measure id") auto

declare digits.simps [simp del]

definition str_of_int :: "int \<Rightarrow> string" where
  "str_of_int i = (if i < 0 then CHR ''-'' # digits (nat (- i)) else digits (nat i))"

text \<open>
  Lines 173-185: \<^verbatim>\<open>cfg.fmt or main_cfg.fmt\<close> (an empty string is false), the file key
  and the file name. \<^verbatim>\<open>None.endswith\<close> raises \<^verbatim>\<open>AttributeError\<close>,
  \<^verbatim>\<open>endswith(None)\<close> raises \<^verbatim>\<open>TypeError\<close>, and \<^verbatim>\<open>file_to[:-0]\<close> is empty.
\<close>

definition py_or :: "string option \<Rightarrow> string option \<Rightarrow> string option" where
  "py_or a b = (case a of None \<Rightarrow> b | Some s \<Rightarrow> if s = [] then b else Some s)"

definition file_names :: "ComponentExportConfig \<Rightarrow> ExportConfig \<Rightarrow> error + string \<times> string" where
  "file_names cfg main_cfg =
     (case to cfg of
        None \<Rightarrow> Inl AttributeError
      | Some file_to \<Rightarrow>
          (case py_or (fmt cfg) (cfg_fmt main_cfg) of
             None \<Rightarrow> Inl TypeError
           | Some file_ext \<Rightarrow>
               let file_to = (if endswith file_to file_ext
                              then (if length file_ext = 0 then []
                                    else take (length file_to - length file_ext) file_to)
                              else file_to);
                   file_key = file_to;
                   file_to = (case count cfg of None \<Rightarrow> file_to
                              | Some n \<Rightarrow> file_to @ ''_x'' @ str_of_int n)
               in Inr (file_key, file_to @ ''.'' @ file_ext)))"

datatype flow = Continue | Break

text \<open>
  \<^verbatim>\<open>old_version[k]\<close> on a manifest entry: \<^verbatim>\<open>KeyError\<close> on a dictionary without the
  key, \<^verbatim>\<open>TypeError\<close> on anything that is not a dictionary.
\<close>

definition item :: "json \<Rightarrow> string \<Rightarrow> error + json" where
  "item v k =
     (case v of
        JObj kv \<Rightarrow> (case map_of kv k of None \<Rightarrow> Inl KeyError | Some x \<Rightarrow> Inr x)
      | _ \<Rightarrow> Inl TypeError)"

text \<open>
  Lines 188-196: the condition under which the component is skipped. A missing entry
  and a \<^verbatim>\<open>null\<close> entry are both \<^verbatim>\<open>None\<close>; \<^verbatim>\<open>and\<close> evaluates left to right and stops
  at the first false operand; \<^verbatim>\<open><\<close> between a string and a non-string raises
  \<^verbatim>\<open>TypeError\<close>.
\<close>

definition skip_check :: "ExportConfig \<Rightarrow> component \<Rightarrow> string \<Rightarrow> json option \<Rightarrow> host \<Rightarrow> error + bool" where
  "skip_check main_cfg cmp filepath old h =
     (case old of
        None \<Rightarrow> Inr False
      | Some old_version \<Rightarrow>
          if old_version = JNull then Inr False
          else
            (case item old_version ''component'' of
               Inl e \<Rightarrow> Inl e
             | Inr c \<Rightarrow>
                 if c \<noteq> JStr (cmp_name cmp) then Inr False
                 else
                   (case item old_version ''revisionId'' of
                      Inl e \<Rightarrow> Inl e
                    | Inr r \<Rightarrow>
                        if r \<noteq> JStr (revision h (cmp_id cmp)) then Inr False
                        else if \<not> path_exists h filepath then Inr False
                        else
                          (case modified main_cfg of
                             None \<Rightarrow> Inr False
                           | Some m \<Rightarrow>
                               if m = [] then Inr False
                               else
                                 (case item old_version ''changed'' of
                                    Inl e \<Rightarrow> Inl e
                                  | Inr changed \<Rightarrow>
                                      (case changed of
                                         JStr c \<Rightarrow> Inr (c < m)
                                       | _ \<Rightarrow> Inl TypeError))))))"

text \<open>
  Lines 206-210: the old file is deleted when the recorded file name differs and
  something exists at its path. \<^verbatim>\<open>!=\<close> holds between a string and any value that is
  not a string, and joining the directory with such a value raises \<^verbatim>\<open>TypeError\<close>.
\<close>

definition remove_renamed :: "env \<Rightarrow> string \<Rightarrow> string \<Rightarrow> json option \<Rightarrow> host \<Rightarrow> error + host" where
  "remove_renamed e output_dir filepath old h =
     (case old of
        None \<Rightarrow> Inr h
      | Some old_version \<Rightarrow>
          if old_version = JNull then Inr h
          else
            (case item old_version ''filename'' of
               Inl err \<Rightarrow> Inl err
             | Inr f \<Rightarrow>
                 if f \<noteq> JStr filepath
                 then (case f of
                         JStr s \<Rightarrow>
                           let old_filename = path_join e output_dir s
                           in if path_exists h old_filename then unlink old_filename h else Inr h
                       | _ \<Rightarrow> Inl TypeError)
                 else Inr h))"

text \<open>
  Lines 212-218: the manifest entry written for an exported component.
\<close>

definition new_entry :: "env \<Rightarrow> component \<Rightarrow> string \<Rightarrow> nat \<Rightarrow> host \<Rightarrow> json" where
  "new_entry e cmp filepath i h =
     JObj [(''component'', JStr (cmp_name cmp)),
           (''filename'', JStr filepath),
           (''revisionId'', JStr (revision h (cmp_id cmp))),
           (''fromDocument'', JStr (root_comp_name e)),
           (''changed'', JStr (now e i))]"

text \<open>
  Lines 229-245: the temporary move feature; \<open>reorient\<close> returns \<^verbatim>\<open>newMoveFeature\<close>.
\<close>

definition reorient :: "env \<Rightarrow> ComponentExportConfig \<Rightarrow> component \<Rightarrow> host \<Rightarrow> error + nat option \<times> host" where
  "reorient e cfg cmp h =
     (case up cfg of
        None \<Rightarrow> Inr (None, h)
      | Some u \<Rightarrow>
          if u = ''z'' then Inr (None, h)
          else if u \<notin> set VALID_ORIENTATIONS then Inl AssertionError
          else (case add_move e (cmp_id cmp) h of (f, h') \<Rightarrow> Inr (Some f, h')))"

text \<open>
  Lines 212-270: the turn of a component that is not skipped.
\<close>

definition export_component ::
  "env \<Rightarrow> ComponentExportConfig \<Rightarrow> component \<Rightarrow> nat \<Rightarrow> string \<Rightarrow> string \<Rightarrow> host \<Rightarrow> manifest \<Rightarrow>
     error + flow \<times> host \<times> manifest" where
  "export_component e cfg cmp i file_key filepath h version_control =
     (let entry = new_entry e cmp filepath i h;
          version_control = AList.update file_key entry version_control;
          h = call (Store file_key entry) h
      in case reorient e cfg cmp h of
           Inl err \<Rightarrow> Inl err
         | Inr (newMoveFeature, h) \<Rightarrow>
             (case mkdir_parent e filepath h of
                Inl err \<Rightarrow> Inl err
              | Inr h \<Rightarrow>
                  (let h = execute (cmp_id cmp) filepath h;
                       h = (case newMoveFeature of None \<Rightarrow> h | Some f \<Rightarrow> deleteMe e (cmp_id cmp) f h)
                   in if was_cancelled e i then Inr (Break, h, version_control)
                      else Inr (Continue, set_progress (Suc i) h, version_control))))"

text \<open>
  Lines 167-270: one turn of the loop, for the \<open>i\<close>-th pair of \<^verbatim>\<open>components\<close>.
\<close>

definition export_step ::
  "env \<Rightarrow> ExportConfig \<Rightarrow> string \<Rightarrow> nat \<Rightarrow> ComponentExportConfig \<times> component \<Rightarrow> host \<Rightarrow> manifest \<Rightarrow>
     error + flow \<times> host \<times> manifest" where
  "export_step e main_cfg output_dir i item_i h version_control =
     (let cfg = fst item_i; cmp = snd item_i; h = set_progress i h in
      case file_names cfg main_cfg of
        Inl err \<Rightarrow> Inl err
      | Inr (file_key, filename) \<Rightarrow>
          (let filepath = path_join e output_dir filename;
               old_version = map_of version_control file_key
           in case skip_check main_cfg cmp filepath old_version h of
                Inl err \<Rightarrow> Inl err
              | Inr skip \<Rightarrow>
                  if skip then Inr (Continue, h, version_control)
                  else
                    (case remove_renamed e output_dir filepath old_version h of
                       Inl err \<Rightarrow> Inl err
                     | Inr h \<Rightarrow> export_component e cfg cmp i file_key filepath h version_control)))"

text \<open>
  The \<^verbatim>\<open>for\<close> loop: \<open>Break\<close> is returned when the loop was left through line 268.
\<close>

fun export_loop ::
  "env \<Rightarrow> ExportConfig \<Rightarrow> string \<Rightarrow> nat \<Rightarrow> (ComponentExportConfig \<times> component) list \<Rightarrow> host \<Rightarrow> manifest \<Rightarrow>
     error + flow \<times> host \<times> manifest" where
  "export_loop e main_cfg output_dir i [] h version_control = Inr (Continue, h, version_control)"
| "export_loop e main_cfg output_dir i (x # xs) h version_control =
     (case export_step e main_cfg output_dir i x h version_control of
        Inl err \<Rightarrow> Inl err
      | Inr (fl, h, version_control) \<Rightarrow>
          if fl = Break then Inr (Break, h, version_control)
          else export_loop e main_cfg output_dir (Suc i) xs h version_control)"

text \<open>
  Lines 141-146: the configured components found in the assembly, with what was found.
\<close>

definition selected :: "ExportConfig \<Rightarrow> root \<Rightarrow> (ComponentExportConfig \<times> component) list" where
  "selected main_cfg rootOcc =
     (let all_components = recursiveEnumerateComponents rootOcc in
      List.map_filter
        (\<lambda>cmp_cfg. case name cmp_cfg of
                     None \<Rightarrow> None
                   | Some n \<Rightarrow> map_option (\<lambda>cmp. (cmp_cfg, cmp)) (all_components n))
        (components main_cfg))"

text \<open>
  \<^verbatim>\<open>export\<close> (lines 137-276).
\<close>

definition export :: "env \<Rightarrow> ExportConfig \<Rightarrow> string \<Rightarrow> root \<Rightarrow> host \<Rightarrow> error + host" where
  "export e main_cfg output_dir rootOcc h =
     (let components = selected main_cfg rootOcc;
          h = call (Show (length components)) h;
          version_control = (case manifest_file h of None \<Rightarrow> [] | Some m \<Rightarrow> m)
      in case export_loop e main_cfg output_dir 0 components h version_control of
           Inl err \<Rightarrow> Inl err
         | Inr (_, h, version_control) \<Rightarrow>
             Inr ((call Hide h)\<lparr>manifest_file := Some version_control\<rparr>))"

subsection \<open>Notions used to state the properties\<close>

text \<open>
  The skip condition as the specification words it: the manifest has an entry under
  the file key whose recorded component is the component's name and whose recorded
  revision id is the component's current one, the target path exists on the disk, and
  the config's modification time is set and later than the entry's \<^verbatim>\<open>changed\<close> time.
\<close>

definition up_to_date :: "ExportConfig \<Rightarrow> component \<Rightarrow> string \<Rightarrow> manifest \<Rightarrow> string \<Rightarrow> host \<Rightarrow> bool" where
  "up_to_date main_cfg cmp file_key version_control filepath h \<longleftrightarrow>
     (\<exists>old c m. map_of version_control file_key = Some (JObj old) \<and>
        map_of old ''component'' = Some (JStr (cmp_name cmp)) \<and>
        map_of old ''revisionId'' = Some (JStr (revision h (cmp_id cmp))) \<and>
        path_exists h filepath \<and>
        modified main_cfg = Some m \<and> map_of old ''changed'' = Some (JStr c) \<and> c < m)"

text \<open>
  An entry with the fields \<^verbatim>\<open>export\<close> reads, as strings; a configured orientation that
  passes the assertion of line 232; the calls a state has gained.
\<close>

definition well_formed_entry :: "json \<Rightarrow> bool" where
  "well_formed_entry v \<longleftrightarrow>
     (\<exists>kv c f r ch. v = JObj kv \<and> map_of kv ''component'' = Some (JStr c) \<and>
        map_of kv ''filename'' = Some (JStr f) \<and> map_of kv ''revisionId'' = Some (JStr r) \<and>
        map_of kv ''changed'' = Some (JStr ch))"

definition valid_up :: "ComponentExportConfig \<Rightarrow> bool" where
  "valid_up cfg \<longleftrightarrow> (case up cfg of None \<Rightarrow> True | Some u \<Rightarrow> u \<in> set VALID_ORIENTATIONS)"

definition new_calls :: "host \<Rightarrow> host \<Rightarrow> call list" where
  "new_calls h h' = drop (length (calls h)) (calls h')"

text \<open>
  What the file system calls of a turn need: the file recorded in the entry, when its
  name differs from the target's, is not a directory; and no directory the target lies
  in is there as a regular file.
\<close>

definition old_file_removable :: "env \<Rightarrow> string \<Rightarrow> string \<Rightarrow> json option \<Rightarrow> host \<Rightarrow> bool" where
  "old_file_removable e output_dir filepath old h =
     (case old of
        Some (JObj kv) \<Rightarrow>
          (case map_of kv ''filename'' of
             Some (JStr s) \<Rightarrow> s = filepath \<or> disk h (path_join e output_dir s) \<noteq> Some Directory
           | _ \<Rightarrow> True)
      | _ \<Rightarrow> True)"

definition parent_makeable :: "env \<Rightarrow> string \<Rightarrow> host \<Rightarrow> bool" where
  "parent_makeable e filepath h \<longleftrightarrow> (\<forall>a \<in> set (parents e filepath). disk h a \<noteq> Some File)"

text \<open>
  Whether a move feature is made (line 231), and the calls of a turn that exports.
\<close>

definition moved :: "ComponentExportConfig \<Rightarrow> bool" where
  "moved cfg \<longleftrightarrow> (case up cfg of None \<Rightarrow> False | Some u \<Rightarrow> u \<noteq> ''z'')"

definition component_calls :: "env \<Rightarrow> ComponentExportConfig \<Rightarrow> component \<Rightarrow> nat \<Rightarrow> string \<Rightarrow> string \<Rightarrow> host \<Rightarrow> call list" where
  "component_calls e cfg cmp i file_key filepath h =
     [Store file_key (new_entry e cmp filepath i h)] @
     (if moved cfg then [AddMove (cmp_id cmp) (fresh_feature (move_features h (cmp_id cmp)))] else []) @
     [MakeParent filepath, Execute (cmp_id cmp) filepath] @
     (if moved cfg then [DeleteMove (cmp_id cmp) (fresh_feature (move_features h (cmp_id cmp)))] else []) @
     (if was_cancelled e i then [] else [SetProgress (Suc i)])"
text \<open>
  Readings of a list of calls: the manifest writes, the mesh exports, the calls that
  concern the reorientation (move features and mesh exports), and the progress value
  the calls leave behind.
\<close>

fun stores :: "call list \<Rightarrow> (string \<times> json) list" where
  "stores [] = []"
| "stores (Store k v # cs) = (k, v) # stores cs"
| "stores (c # cs) = stores cs"

fun executed :: "call list \<Rightarrow> (nat \<times> string) list" where
  "executed [] = []"
| "executed (Execute c p # cs) = (c, p) # executed cs"
| "executed (c # cs) = executed cs"

fun reorientation :: "call list \<Rightarrow> call list" where
  "reorientation [] = []"
| "reorientation (AddMove c f # cs) = AddMove c f # reorientation cs"
| "reorientation (Execute c p # cs) = Execute c p # reorientation cs"
| "reorientation (DeleteMove c f # cs) = DeleteMove c f # reorientation cs"
| "reorientation (c # cs) = reorientation cs"

fun last_progress :: "nat \<Rightarrow> call list \<Rightarrow> nat" where
  "last_progress p [] = p"
| "last_progress p (SetProgress n # cs) = last_progress n cs"
| "last_progress p (c # cs) = last_progress p cs"

text \<open>A manifest entry with exactly the five fields of lines 212-218, all strings.\<close>

definition is_entry :: "json \<Rightarrow> bool" where
  "is_entry v \<longleftrightarrow>
     (\<exists>n p r d t. v = JObj [(''component'', JStr n), (''filename'', JStr p), (''revisionId'', JStr r),
                             (''fromDocument'', JStr d), (''changed'', JStr t)])"

text \<open>
  The calls one turn of the loop can make for the \<open>i\<close>-th pair \<open>x\<close>: the progress
  value alone when the component is skipped; otherwise the progress value, the
  deletion of a renamed file, and the calls of the export.
\<close>

definition turn_of ::
  "env \<Rightarrow> ExportConfig \<Rightarrow> string \<Rightarrow> nat \<Rightarrow> ComponentExportConfig \<times> component \<Rightarrow> call list \<Rightarrow> bool" where
  "turn_of e main_cfg output_dir i x cs \<longleftrightarrow>
     (\<exists>file_key filename. file_names (fst x) main_cfg = Inr (file_key, filename) \<and>
        (cs = [SetProgress i] \<or>
         (valid_up (fst x) \<and>
          (\<exists>us h. (\<forall>c \<in> set us. \<exists>p. c = Unlink p) \<and>
             cs = [SetProgress i] @ us @
               component_calls e (fst x) (snd x) i file_key (path_join e output_dir filename) h))))"


text \<open>The manifest \<^verbatim>\<open>export\<close> starts from (lines 162-165).\<close>

definition loaded_manifest :: "host \<Rightarrow> manifest" where
  "loaded_manifest h = (case manifest_file h of None \<Rightarrow> [] | Some m \<Rightarrow> m)"

subsection \<open>A small assembly, used to run the definitions\<close>

text \<open>
  Paths are joined with a slash, and every path of the examples lies directly in the
  directory \<^verbatim>\<open>out\<close>.
\<close>

definition example_env :: env where
  "example_env =
     \<lparr>path_join = (\<lambda>d f. d @ ''/'' @ f), parents = (\<lambda>p. [''out'', ''.'']),
      root_comp_name = ''Assembly'',
      now = (\<lambda>i. ''2024-06-01T00:00:00''), was_cancelled = (\<lambda>i. False),
      next_revision = (\<lambda>r. r @ ''*'')\<rparr>"

definition base_cmp :: component where
  "base_cmp = Component 1 ''Base'' []"

definition base_cfg :: ComponentExportConfig where
  "base_cfg = \<lparr>name = Some ''Base'', to = Some ''base'', up = None, fmt = None, count = None\<rparr>"

text \<open>The same component with an orientation that is not one of the six.\<close>

definition tilted_cfg :: ComponentExportConfig where
  "tilted_cfg = \<lparr>name = Some ''Base'', to = Some ''base'', up = Some ''w'', fmt = None, count = None\<rparr>"

definition example_main :: ExportConfig where
  "example_main =
     \<lparr>cfg_fmt = Some ''stl'', components = [base_cfg], modified = Some ''2024-05-15T00:00:00''\<rparr>"

definition base_entry :: json where
  "base_entry =
     JObj [(''component'', JStr ''Base''), (''filename'', JStr ''out/base.stl''),
           (''revisionId'', JStr ''r1''), (''fromDocument'', JStr ''Assembly''),
           (''changed'', JStr ''2024-05-01T00:00:00'')]"

text \<open>A state in which \<open>Base\<close> was exported before the config was last edited.\<close>

definition example_host :: host where
  "example_host =
     \<lparr>disk = [''out/base.stl'' \<mapsto> File, ''out'' \<mapsto> Directory], manifest_file = Some [(''base'', base_entry)],
      revision = (\<lambda>c. ''r1''), move_features = (\<lambda>c. []), progress = 0, calls = []\<rparr>"

text \<open>The same state before any export.\<close>

definition fresh_host :: host where
  "fresh_host =
     \<lparr>disk = Map.empty, manifest_file = None,
      revision = (\<lambda>c. ''r1''), move_features = (\<lambda>c. []), progress = 0, calls = []\<rparr>"

text \<open>A state whose manifest holds an entry under another key, and no mesh file.\<close>

definition other_host :: host where
  "other_host =
     \<lparr>disk = Map.empty, manifest_file = Some [(''lid'', base_entry)],
      revision = (\<lambda>c. ''r1''), move_features = (\<lambda>c. []), progress = 0, calls = []\<rparr>"
section \<open>Assembly traversal\<close>

lemma enumerate_Component [simp]:
  "recursiveEnumerateComponents (IsComponent (Component i n occs)) =
     foldl (\<lambda>rv occ. rv ++ recursiveEnumerateComponents (IsOccurrence occ))
       [n \<mapsto> Component i n occs] occs"
  by (subst recursiveEnumerateComponents.simps) simp

lemma enumerate_Occurrence [simp]:
  "recursiveEnumerateComponents (IsOccurrence (Occurrence n c chs)) =
     foldl (\<lambda>rv occ. rv ++ recursiveEnumerateComponents (IsOccurrence occ))
       [cmp_name c \<mapsto> c] chs"
  by (subst recursiveEnumerateComponents.simps) simp













section \<open>Occurrence counts\<close>

lemma count_Nil [simp]: "recursiveCountOccurences [] = []"
  by (subst recursiveCountOccurences.simps) (simp add: count_direct_def)

lemma count_Cons: "recursiveCountOccurences (x # xs) =
     foldl (\<lambda>rv occ.
        if endswith (occ_name occ) '':1''
        then add_child (cmp_name (component occ)) (recursiveCountOccurences (childOccurrences occ)) rv
        else rv)
       (count_direct (x # xs)) (x # xs)"
  by (subst recursiveCountOccurences.simps) (rule refl)

lemma count_unfold: "recursiveCountOccurences occs = foldl count_step (count_direct occs) occs"
  by (subst recursiveCountOccurences.simps) (simp add: count_step_def [abs_def])

lemma lookup0_add_to: "lookup0 (add_to k d rv) j = (if j = k then lookup0 rv k + d else lookup0 rv j)"
  by (simp add: add_to_def lookup0_def update_conv')

lemma keys_add_to: "fst ` set (add_to k d rv) = insert k (fst ` set rv)"
  by (simp add: add_to_def dom_update)

lemma distinct_add_to: "distinct (map fst rv) \<Longrightarrow> distinct (map fst (add_to k d rv))"
  by (simp add: add_to_def distinct_update)

lemma lookup0_direct_acc:
  "lookup0 (foldl (\<lambda>rv occ. add_to (cmp_name (component occ)) 1 rv) acc occs) k =
     lookup0 acc k + direct_occurrences occs k"
  by (induction occs arbitrary: acc) (simp_all add: direct_occurrences_def lookup0_add_to)

lemma lookup0_count_direct: "lookup0 (count_direct occs) k = direct_occurrences occs k"
  using lookup0_direct_acc [of "[]" occs k] by (simp add: count_direct_def lookup0_def)

lemma lookup0_absent: "k \<notin> fst ` set rv \<Longrightarrow> lookup0 rv k = 0"
proof -
  assume "k \<notin> fst ` set rv"
  then have "map_of rv k = None" by (simp add: map_of_eq_None_iff)
  then show ?thesis by (simp add: lookup0_def)
qed

lemma lookup0_add_child:
  "distinct (map fst child) \<Longrightarrow> parent \<notin> fst ` set child \<Longrightarrow>
     lookup0 (add_child parent child rv) k = lookup0 rv k + lookup0 child k * lookup0 rv parent"
proof (induction child arbitrary: rv)
  case Nil
  then show ?case by (simp add: add_child_def lookup0_def)
next
  case (Cons kc child)
  obtain key c where kc: "kc = (key, c)" by (cases kc)
  let ?rv = "add_to key (c * lookup0 rv parent) rv"
  from Cons.prems kc have ne: "key \<noteq> parent" and d: "distinct (map fst child)"
    and p: "parent \<notin> fst ` set child" and fresh: "key \<notin> fst ` set child" by auto
  have unfold: "add_child parent (kc # child) rv = add_child parent child ?rv"
    by (simp add: add_child_def kc)
  have par: "lookup0 ?rv parent = lookup0 rv parent"
    using ne by (simp add: lookup0_add_to)
  have "lookup0 (add_child parent child ?rv) k = lookup0 ?rv k + lookup0 child k * lookup0 rv parent"
    using Cons.IH [OF d p, of ?rv] par by simp
  moreover have "lookup0 (kc # child) k = (if k = key then c else lookup0 child k)"
    by (simp add: lookup0_def kc)
  moreover have "k = key \<Longrightarrow> lookup0 child k = 0"
    using fresh by (simp add: lookup0_absent)
  ultimately show ?case
    by (simp add: unfold lookup0_add_to algebra_simps)
qed

lemma distinct_add_child: "distinct (map fst rv) \<Longrightarrow> distinct (map fst (add_child parent child rv))"
proof (induction child arbitrary: rv)
  case Nil then show ?case by (simp add: add_child_def)
next
  case (Cons kc child)
  obtain key c where kc: "kc = (key, c)" by (cases kc)
  have "add_child parent (kc # child) rv = add_child parent child (add_to key (c * lookup0 rv parent) rv)"
    by (simp add: add_child_def kc)
  with Cons show ?case by (simp add: distinct_add_to)
qed

lemma distinct_count_direct_acc:
  "distinct (map fst acc) \<Longrightarrow>
     distinct (map fst (foldl (\<lambda>rv occ. add_to (cmp_name (component occ)) 1 rv) acc occs))"
  by (induction occs arbitrary: acc) (simp_all add: distinct_add_to)

lemma distinct_count_step: "distinct (map fst rv) \<Longrightarrow> distinct (map fst (count_step rv occ))"
  by (simp add: count_step_def distinct_add_child)

lemma distinct_foldl_count_step:
  "distinct (map fst rv) \<Longrightarrow> distinct (map fst (foldl count_step rv occs))"
  by (induction occs arbitrary: rv) (simp_all add: distinct_count_step)

lemma distinct_count: "distinct (map fst (recursiveCountOccurences occs))"
  using distinct_foldl_count_step [OF distinct_count_direct_acc [of "[]" occs], of occs]
  by (simp add: count_unfold count_direct_def)

lemma lookup0_count_step:
  assumes "endswith (occ_name occ) '':1'' \<longrightarrow>
     cmp_name (component occ) \<notin> fst ` set (recursiveCountOccurences (childOccurrences occ))"
  shows "lookup0 (count_step rv occ) k =
     lookup0 rv k +
     (if endswith (occ_name occ) '':1''
      then lookup0 (recursiveCountOccurences (childOccurrences occ)) k * lookup0 rv (cmp_name (component occ))
      else 0)"
  using assms by (simp add: count_step_def lookup0_add_child distinct_count)

lemma lookup0_foldl_count_step:
  assumes "\<forall>a \<in> set (representatives xs). \<forall>b \<in> set (representatives xs).
        cmp_name (component b) \<notin> fst ` set (recursiveCountOccurences (childOccurrences a))"
  shows "lookup0 (foldl count_step rv xs) k =
     lookup0 rv k +
     (\<Sum>occ \<leftarrow> representatives xs.
        lookup0 (recursiveCountOccurences (childOccurrences occ)) k * lookup0 rv (cmp_name (component occ)))"
  using assms
proof (induction xs arbitrary: rv)
  case Nil
  then show ?case by (simp add: representatives_def)
next
  case (Cons x xs)
  let ?rv = "count_step rv x"
  from Cons.prems have rest: "\<forall>a \<in> set (representatives xs). \<forall>b \<in> set (representatives xs).
        cmp_name (component b) \<notin> fst ` set (recursiveCountOccurences (childOccurrences a))"
    by (simp add: representatives_def)
  have self: "endswith (occ_name x) '':1'' \<longrightarrow>
     cmp_name (component x) \<notin> fst ` set (recursiveCountOccurences (childOccurrences x))"
    using Cons.prems by (simp add: representatives_def)
  have keep: "lookup0 ?rv (cmp_name (component b)) = lookup0 rv (cmp_name (component b))"
    if "b \<in> set (representatives xs)" for b
  proof (cases "endswith (occ_name x) '':1''")
    case True
    with Cons.prems that
    have "cmp_name (component b) \<notin> fst ` set (recursiveCountOccurences (childOccurrences x))"
      by (simp add: representatives_def)
    then have "lookup0 (recursiveCountOccurences (childOccurrences x)) (cmp_name (component b)) = 0"
      by (rule lookup0_absent)
    then show ?thesis using lookup0_count_step [OF self, of rv "cmp_name (component b)"] by simp
  next
    case False
    then show ?thesis by (simp add: count_step_def)
  qed
  have sum_eq: "(\<Sum>occ \<leftarrow> representatives xs.
        lookup0 (recursiveCountOccurences (childOccurrences occ)) k * lookup0 ?rv (cmp_name (component occ))) =
      (\<Sum>occ \<leftarrow> representatives xs.
        lookup0 (recursiveCountOccurences (childOccurrences occ)) k * lookup0 rv (cmp_name (component occ)))"
    using keep by (intro arg_cong [where f = sum_list] map_cong refl) simp
  have "lookup0 (foldl count_step rv (x # xs)) k = lookup0 (foldl count_step ?rv xs) k" by simp
  also have "\<dots> = lookup0 ?rv k + (\<Sum>occ \<leftarrow> representatives xs.
        lookup0 (recursiveCountOccurences (childOccurrences occ)) k * lookup0 ?rv (cmp_name (component occ)))"
    by (rule Cons.IH [OF rest])
  also have "\<dots> = lookup0 ?rv k + (\<Sum>occ \<leftarrow> representatives xs.
        lookup0 (recursiveCountOccurences (childOccurrences occ)) k * lookup0 rv (cmp_name (component occ)))"
    by (simp only: sum_eq)
  also have "\<dots> = lookup0 rv k + (\<Sum>occ \<leftarrow> representatives (x # xs).
        lookup0 (recursiveCountOccurences (childOccurrences occ)) k * lookup0 rv (cmp_name (component occ)))"
    using lookup0_count_step [OF self, of rv k] by (simp add: representatives_def)
  finally show ?case .
qed

lemma count_eq_claimed:
  assumes "independent_parents occs"
  shows "lookup0 (recursiveCountOccurences occs) k = count_as_claimed occs k"
proof -
  from assms have "\<forall>a \<in> set (representatives occs). \<forall>b \<in> set (representatives occs).
        cmp_name (component b) \<notin> fst ` set (recursiveCountOccurences (childOccurrences a))"
    by (simp add: independent_parents_def)
  from lookup0_foldl_count_step [OF this, of "count_direct occs" k]
  have "lookup0 (recursiveCountOccurences occs) k =
      lookup0 (count_direct occs) k +
      (\<Sum>occ \<leftarrow> representatives occs.
        lookup0 (recursiveCountOccurences (childOccurrences occ)) k *
        lookup0 (count_direct occs) (cmp_name (component occ)))"
    by (subst count_unfold)
  then show ?thesis by (simp add: count_as_claimed_def lookup0_count_direct)
qed

lemma count_step_prune: "count_step rv (prune occ) = count_step rv occ"
  by (simp add: count_step_def prune_def)

lemma foldl_count_step_prune: "foldl count_step rv (map prune occs) = foldl count_step rv occs"
  by (induction occs arbitrary: rv) (simp_all add: count_step_prune)

lemma count_direct_prune: "count_direct (map prune occs) = count_direct occs"
proof -
  have "foldl (\<lambda>rv occ. add_to (cmp_name (component occ)) 1 rv) acc (map prune occs) =
        foldl (\<lambda>rv occ. add_to (cmp_name (component occ)) 1 rv) acc occs" for acc
    by (induction occs arbitrary: acc) (simp_all add: prune_def)
  then show ?thesis by (simp add: count_direct_def)
qed

lemma count_prune: "recursiveCountOccurences (map prune occs) = recursiveCountOccurences occs"
  by (simp add: count_unfold foldl_count_step_prune count_direct_prune)


text \<open>
  Claim C10, as stated, fails. In the list \<open>[Q:1 [P:2 [C:1]], P:1 [C:1]]\<close> the turn of
  \<open>Q:1\<close> raises the count of \<open>P\<close> from 1 to 2 before the turn of \<open>P:1\<close> multiplies
  by it: the code counts \<open>C\<close> twice, the stated formula (direct occurrence count
  of \<open>P\<close>, which is 1) once.
\<close>

theorem C10_direct_multiplier_counterexample:
  "lookup0 (recursiveCountOccurences
     [Occurrence ''Q:1'' (Component 1 ''Q'' [])
        [Occurrence ''P:2'' (Component 2 ''P'' []) [Occurrence ''C:1'' (Component 3 ''C'' []) []]],
      Occurrence ''P:1'' (Component 2 ''P'' []) [Occurrence ''C:1'' (Component 3 ''C'' []) []]]) ''C'' = 2 \<and>
   count_as_claimed
     [Occurrence ''Q:1'' (Component 1 ''Q'' [])
        [Occurrence ''P:2'' (Component 2 ''P'' []) [Occurrence ''C:1'' (Component 3 ''C'' []) []]],
      Occurrence ''P:1'' (Component 2 ''P'' []) [Occurrence ''C:1'' (Component 3 ''C'' []) []]] ''C'' = 1"
  by (simp add: count_Cons count_direct_def add_child_def add_to_def lookup0_def endswith_def
      count_as_claimed_def direct_occurrences_def representatives_def)

text \<open>
  Claim C10, amended. The result is the dictionary of direct occurrence counts folded
  through one turn per occurrence of the list; a turn for an occurrence whose name ends
  in \<^verbatim>\<open>:1\<close> adds, for every component, its count in that occurrence's sub-tree times
  the count the occurrence's own component has in the dictionary at that moment (when
  that component is not counted in its own sub-tree). When no component with a \<^verbatim>\<open>:1\<close>
  occurrence in the list is counted inside a \<^verbatim>\<open>:1\<close> sub-tree of the list, the multiplier
  is the direct occurrence count and every count is the one the claim states. The
  sub-trees of occurrences not named \<^verbatim>\<open>:1\<close> are never traversed: cutting them off
  does not change the result.
\<close>

theorem C10_count_occurrences:
  "recursiveCountOccurences occs = foldl count_step (count_direct occs) occs \<and>
   lookup0 (count_direct occs) k = direct_occurrences occs k \<and>
   (endswith (occ_name occ) '':1'' \<and>
    cmp_name (component occ) \<notin> fst ` set (recursiveCountOccurences (childOccurrences occ)) \<longrightarrow>
      lookup0 (count_step rv occ) k =
        lookup0 rv k +
        lookup0 (recursiveCountOccurences (childOccurrences occ)) k * lookup0 rv (cmp_name (component occ))) \<and>
   (\<not> endswith (occ_name occ) '':1'' \<longrightarrow> count_step rv occ = rv) \<and>
   (independent_parents occs \<longrightarrow> lookup0 (recursiveCountOccurences occs) k = count_as_claimed occs k) \<and>
   recursiveCountOccurences (map prune occs) = recursiveCountOccurences occs"
proof (intro conjI impI)
  show "recursiveCountOccurences occs = foldl count_step (count_direct occs) occs"
    by (rule count_unfold)
  show "lookup0 (count_direct occs) k = direct_occurrences occs k"
    by (rule lookup0_count_direct)
  show "lookup0 (count_step rv occ) k =
        lookup0 rv k +
        lookup0 (recursiveCountOccurences (childOccurrences occ)) k * lookup0 rv (cmp_name (component occ))"
    if "endswith (occ_name occ) '':1'' \<and>
        cmp_name (component occ) \<notin> fst ` set (recursiveCountOccurences (childOccurrences occ))"
    using that lookup0_count_step [of occ rv k] by simp
  show "count_step rv occ = rv" if "\<not> endswith (occ_name occ) '':1''"
    using that by (simp add: count_step_def)
  show "lookup0 (recursiveCountOccurences occs) k = count_as_claimed occs k"
    if "independent_parents occs"
    using that by (rule count_eq_claimed)
  show "recursiveCountOccurences (map prune occs) = recursiveCountOccurences occs"
    by (rule count_prune)
qed

text \<open>
  The theorem at two occurrences of \<open>A\<close>, each holding two occurrences of \<open>B\<close>, the
  second with a sub-tree the code never enters: \<open>B\<close> is counted \<open>2 * 2 = 4\<close> times.
\<close>

theorem C10_count_occurrences_witness:
  "independent_parents
     [Occurrence ''A:1'' (Component 1 ''A'' [])
        [Occurrence ''B:1'' (Component 2 ''B'' []) [], Occurrence ''B:2'' (Component 2 ''B'' []) []],
      Occurrence ''A:2'' (Component 1 ''A'' [])
        [Occurrence ''X:1'' (Component 9 ''X'' []) []]] \<and>
   endswith (occ_name (Occurrence ''A:1'' (Component 1 ''A'' [])
        [Occurrence ''B:1'' (Component 2 ''B'' []) [], Occurrence ''B:2'' (Component 2 ''B'' []) []])) '':1'' \<and>
   \<not> endswith (occ_name (Occurrence ''A:2'' (Component 1 ''A'' [])
        [Occurrence ''X:1'' (Component 9 ''X'' []) []])) '':1'' \<and>
   lookup0 (recursiveCountOccurences
     [Occurrence ''A:1'' (Component 1 ''A'' [])
        [Occurrence ''B:1'' (Component 2 ''B'' []) [], Occurrence ''B:2'' (Component 2 ''B'' []) []],
      Occurrence ''A:2'' (Component 1 ''A'' [])
        [Occurrence ''X:1'' (Component 9 ''X'' []) []]]) ''B'' = 4 \<and>
   count_as_claimed
     [Occurrence ''A:1'' (Component 1 ''A'' [])
        [Occurrence ''B:1'' (Component 2 ''B'' []) [], Occurrence ''B:2'' (Component 2 ''B'' []) []],
      Occurrence ''A:2'' (Component 1 ''A'' [])
        [Occurrence ''X:1'' (Component 9 ''X'' []) []]] ''B'' = 4"
proof -
  let ?a1 = "Occurrence ''A:1'' (Component 1 ''A'' [])
        [Occurrence ''B:1'' (Component 2 ''B'' []) [], Occurrence ''B:2'' (Component 2 ''B'' []) []]"
  let ?a2 = "Occurrence ''A:2'' (Component 1 ''A'' []) [Occurrence ''X:1'' (Component 9 ''X'' []) []]"
  have child: "recursiveCountOccurences
      [Occurrence ''B:1'' (Component 2 ''B'' []) [], Occurrence ''B:2'' (Component 2 ''B'' []) []] = [(''B'', 2)]"
    by (simp add: count_Cons count_direct_def add_child_def add_to_def lookup0_def endswith_def)
  have ind: "independent_parents [?a1, ?a2]"
    by (simp add: independent_parents_def representatives_def endswith_def child)
  have claimed: "count_as_claimed [?a1, ?a2] ''B'' = 4"
    by (simp add: count_as_claimed_def representatives_def endswith_def child
        direct_occurrences_def lookup0_def)
  have e1: "endswith (occ_name ?a1) '':1''" and e2: "\<not> endswith (occ_name ?a2) '':1''"
    by (simp_all add: endswith_def)
  from C10_count_occurrences [of "[?a1, ?a2]" "''B''" "?a1" "[]"]
  have "independent_parents [?a1, ?a2] \<longrightarrow>
      lookup0 (recursiveCountOccurences [?a1, ?a2]) ''B'' = count_as_claimed [?a1, ?a2] ''B''"
    by blast
  with ind claimed have "lookup0 (recursiveCountOccurences [?a1, ?a2]) ''B'' = 4"
    by simp
  with ind claimed e1 e2 show ?thesis by blast
qed
section \<open>The configuration file\<close>

lemma py_int_not_assertion: "py_int v \<noteq> Inl AssertionError"
  by (simp add: py_int_def split: json.splits pyfloat.splits option.splits)

lemma collect_error: "collect f xs = Inl e \<Longrightarrow> \<exists>x \<in> set xs. f x = Inl e"
  by (induction xs) (auto split: sum.splits)

lemma keyword_arguments_not_assertion: "keyword_arguments v \<noteq> Inl AssertionError"
  by (simp add: keyword_arguments_def split: json.splits)

lemma construct_not_assertion: "construct kw \<noteq> Inl AssertionError"
  by (simp add: construct_def split: option.splits prod.splits)

lemma iterate_not_assertion: "iterate v \<noteq> Inl AssertionError"
  by (simp add: iterate_def split: json.splits)

lemma parse_file_assertion:
  "parse_file (JObj kv) mtime counts = Inl AssertionError \<longleftrightarrow>
     (\<exists>n. py_int (dict_get kv ''v'' (JInt 0)) = Inr n \<and> n \<noteq> 1)"
proof (cases "py_int (dict_get kv ''v'' (JInt 0))")
  case (Inl e)
  then show ?thesis using py_int_not_assertion [of "dict_get kv ''v'' (JInt 0)"]
    by (simp add: parse_file_def)
next
  case (Inr n)
  show ?thesis
  proof (cases "n = 1")
    case False
    with Inr show ?thesis by (simp add: parse_file_def)
  next
    case True
    have "parse_file (JObj kv) mtime counts \<noteq> Inl AssertionError"
      using Inr True iterate_not_assertion keyword_arguments_not_assertion construct_not_assertion
      by (auto simp: parse_file_def split: sum.splits option.splits dest!: collect_error)
    with Inr True show ?thesis by simp
  qed
qed

lemma str_field_Some: "str_field v = Some s \<Longrightarrow> json_of_str s = v"
  by (auto simp: str_field_def json_of_str_def split: json.splits)

lemma int_field_Some: "int_field v = Some n \<Longrightarrow> json_of_int n = v"
  by (auto simp: int_field_def json_of_int_def split: json.splits)

lemma construct_lists: "construct kw = Inr cmp \<Longrightarrow> lists cmp kw"
  by (auto simp: construct_def lists_def str_field_Some int_field_Some split: option.splits)

lemma construct_well_typed: "well_typed kw \<Longrightarrow> \<exists>cmp. construct kw = Inr cmp"
  by (auto simp: construct_def well_typed_def split: option.splits)

lemma keyword_arguments_well_typed: "well_typed kw \<Longrightarrow> keyword_arguments (JObj kw) = Inr kw"
  by (simp add: keyword_arguments_def well_typed_def)

lemma keyword_arguments_Inr: "keyword_arguments v = Inr kw \<Longrightarrow> v = JObj kw"
  by (auto simp: keyword_arguments_def split: json.splits if_splits)

lemma collect_Inr: "collect f xs = Inr ys \<Longrightarrow> list_all2 (\<lambda>x y. f x = Inr y) xs ys"
  by (induction xs arbitrary: ys) (auto split: sum.splits)

lemma collect_total: "\<forall>x \<in> set xs. \<exists>y. f x = Inr y \<Longrightarrow> \<exists>ys. collect f xs = Inr ys"
  by (induction xs) (auto split: sum.splits)

lemma collect_keyword_arguments:
  assumes "collect keyword_arguments items = Inr kws"
  shows "items = map JObj kws"
proof -
  from collect_Inr [OF assms] have "list_all2 (\<lambda>x y. x = JObj y) items kws"
    by (rule list_all2_mono) (rule keyword_arguments_Inr)
  then show ?thesis by (induction rule: list_all2_induct) simp_all
qed

lemma collect_keyword_arguments_well_typed:
  "\<forall>kw \<in> set kws. well_typed kw \<Longrightarrow> collect keyword_arguments (map JObj kws) = Inr kws"
  by (induction kws) (simp_all add: keyword_arguments_well_typed)

lemma collect_construct_lists:
  assumes "collect construct kws = Inr cmps"
  shows "list_all2 lists cmps kws"
proof -
  from collect_Inr [OF assms] have "list_all2 (\<lambda>kw cmp. lists cmp kw) kws cmps"
    by (rule list_all2_mono) (rule construct_lists)
  then show ?thesis by (simp add: list_all2_conv_all_nth)
qed

lemma parse_file_result:
  assumes "parse_file (JObj kv) mtime counts = Inr cfg"
  shows "py_int (dict_get kv ''v'' (JInt 0)) = Inr 1 \<and>
     (\<exists>kws cmps. iterate (dict_get kv ''components'' (JArr [])) = Inr (map JObj kws) \<and>
        list_all2 lists cmps kws \<and>
        components cfg = map (default_count counts) cmps) \<and>
     json_of_str (cfg_fmt cfg) = dict_get kv ''fmt'' JNull \<and>
     modified cfg = Some mtime"
proof -
  from assms obtain version items kws cmps f where
    v: "py_int (dict_get kv ''v'' (JInt 0)) = Inr version" "version = 1" and
    i: "iterate (dict_get kv ''components'' (JArr [])) = Inr items" and
    k: "collect keyword_arguments items = Inr kws" and
    c: "collect construct kws = Inr cmps" and
    f: "str_field (dict_get kv ''fmt'' JNull) = Some f" and
    cfg: "cfg = \<lparr>cfg_fmt = f, components = map (default_count counts) cmps, modified = Some mtime\<rparr>"
    by (auto simp: parse_file_def split: sum.splits if_splits option.splits)
  from i collect_keyword_arguments [OF k]
  have "iterate (dict_get kv ''components'' (JArr [])) = Inr (map JObj kws)" by simp
  moreover note collect_construct_lists [OF c]
  moreover from cfg have "components cfg = map (default_count counts) cmps" by simp
  moreover from cfg str_field_Some [OF f] have "json_of_str (cfg_fmt cfg) = dict_get kv ''fmt'' JNull" by simp
  moreover from cfg have "modified cfg = Some mtime" by simp
  ultimately show ?thesis using v by blast
qed

lemma parse_file_returns:
  assumes "py_int (dict_get kv ''v'' (JInt 0)) = Inr 1"
    and "dict_get kv ''components'' (JArr []) = JArr (map JObj kws)"
    and "\<forall>kw \<in> set kws. well_typed kw"
    and "str_field (dict_get kv ''fmt'' JNull) \<noteq> None"
  shows "\<exists>cfg. parse_file (JObj kv) mtime counts = Inr cfg"
proof -
  from assms(3) have k: "collect keyword_arguments (map JObj kws) = Inr kws"
    by (rule collect_keyword_arguments_well_typed)
  from assms(3) have "\<forall>kw \<in> set kws. \<exists>cmp. construct kw = Inr cmp"
    by (simp add: construct_well_typed)
  then obtain cmps where c: "collect construct kws = Inr cmps"
    using collect_total [of kws construct] by blast
  from assms(4) obtain f where f: "str_field (dict_get kv ''fmt'' JNull) = Some f" by auto
  show ?thesis
    by (simp add: parse_file_def assms(1,2) iterate_def k c f)
qed

lemma parse_file_version_error:
  "py_int (dict_get kv ''v'' (JInt 0)) = Inl e \<Longrightarrow> parse_file (JObj kv) mtime counts = Inl e"
  by (simp add: parse_file_def)

lemma default_count_count:
  "count (default_count counts cmp) =
     (case count cmp of
        Some n \<Rightarrow> Some n
      | None \<Rightarrow>
          (case counts of
             None \<Rightarrow> None
           | Some cs \<Rightarrow> Some (case name cmp of None \<Rightarrow> 1
                              | Some n \<Rightarrow> (case map_of cs n of None \<Rightarrow> 1 | Some c \<Rightarrow> c))))"
  by (simp add: default_count_def split: option.splits)

lemma default_count_others:
  "name (default_count counts cmp) = name cmp \<and> to (default_count counts cmp) = to cmp \<and>
   up (default_count counts cmp) = up cmp \<and> fmt (default_count counts cmp) = fmt cmp"
  by (simp add: default_count_def split: option.splits)

lemma emit_file_raises:
  assumes "components config \<noteq> []"
  shows "emit_file config = Inl AttributeError"
proof -
  from assms obtain c cs where "components config = c # cs" by (cases "components config") auto
  then show ?thesis by (simp add: emit_file_def to_dict_def attribute_def)
qed

text \<open>
  Claim C8 (a round trip through \<^verbatim>\<open>emit_file\<close> and \<^verbatim>\<open>parse_file\<close>) cannot hold on
  the code: \<^verbatim>\<open>to_dict\<close> reads \<^verbatim>\<open>self.orientation\<close>, an attribute the dataclass
  does not have (the field is \<^verbatim>\<open>up\<close>), so \<^verbatim>\<open>emit_file\<close> raises
  \<^verbatim>\<open>AttributeError\<close> and writes nothing as soon as the config has one component.
\<close>

theorem C8_emit_file_raises:
  "emit_file \<lparr>cfg_fmt = Some ''stl'',
      components = [\<lparr>name = Some ''Base'', to = Some ''base'', up = None, fmt = None, count = None\<rparr>],
      modified = None\<rparr> = Inl AttributeError"
  by (simp add: emit_file_def to_dict_def attribute_def)

text \<open>
  Claim C9, as stated, fails: a file whose \<^verbatim>\<open>v\<close> is the string \<^verbatim>\<open>"1"\<close>, which is
  not the number 1, is accepted, because the version is passed through \<^verbatim>\<open>int\<close>.
\<close>

theorem C9_version_string_counterexample:
  "parse_file (JObj [(''v'', JStr ''1'')]) ''2024-05-01T12:00:00'' None =
     Inr \<lparr>cfg_fmt = None, components = [], modified = Some ''2024-05-01T12:00:00''\<rparr>"
  by (simp add: parse_file_def dict_get_def py_int_def int_of_str_def strip_def is_space_def
      unsigned_of_str_def max_str_digits_def digit_val_def iterate_def str_field_def)

text \<open>
  Claim C9, amended. \<^verbatim>\<open>parse_file\<close> converts the \<^verbatim>\<open>v\<close> field (0 when absent) with
  \<^verbatim>\<open>int\<close>. It raises \<^verbatim>\<open>AssertionError\<close> exactly when the conversion gives an
  integer other than 1, and the conversion's own error when there is none; in both
  cases no configuration is returned. When it returns a configuration, the version
  converted to 1, the components are those listed in the file, in order, each passed
  through the count default, and the format and the modification time are the
  file's. It does return one when the version converts to 1 and the file lists
  well-typed entries. The count default leaves a count given in the file alone, and
  otherwise, when a \<^verbatim>\<open>counts\<close> dictionary is passed, takes the dictionary's value for
  the component's name, or 1.
\<close>

theorem C9_parse_file:
  "(parse_file (JObj kv) mtime counts = Inl AssertionError \<longleftrightarrow>
      (\<exists>n. py_int (dict_get kv ''v'' (JInt 0)) = Inr n \<and> n \<noteq> 1)) \<and>
   (py_int (dict_get kv ''v'' (JInt 0)) = Inl e \<longrightarrow> parse_file (JObj kv) mtime counts = Inl e) \<and>
   (parse_file (JObj kv) mtime counts = Inr cfg \<longrightarrow>
      py_int (dict_get kv ''v'' (JInt 0)) = Inr 1 \<and>
      (\<exists>kws cmps. iterate (dict_get kv ''components'' (JArr [])) = Inr (map JObj kws) \<and>
         list_all2 lists cmps kws \<and>
         components cfg = map (default_count counts) cmps) \<and>
      json_of_str (cfg_fmt cfg) = dict_get kv ''fmt'' JNull \<and>
      modified cfg = Some mtime) \<and>
   (py_int (dict_get kv ''v'' (JInt 0)) = Inr 1 \<and>
    dict_get kv ''components'' (JArr []) = JArr (map JObj kws) \<and>
    (\<forall>kw \<in> set kws. well_typed kw) \<and>
    str_field (dict_get kv ''fmt'' JNull) \<noteq> None \<longrightarrow>
      (\<exists>cfg'. parse_file (JObj kv) mtime counts = Inr cfg')) \<and>
   count (default_count counts cmp) =
     (case count cmp of
        Some n \<Rightarrow> Some n
      | None \<Rightarrow>
          (case counts of
             None \<Rightarrow> None
           | Some cs \<Rightarrow> Some (case name cmp of None \<Rightarrow> 1
                              | Some n \<Rightarrow> (case map_of cs n of None \<Rightarrow> 1 | Some c \<Rightarrow> c)))) \<and>
   name (default_count counts cmp) = name cmp \<and> to (default_count counts cmp) = to cmp \<and>
   up (default_count counts cmp) = up cmp \<and> fmt (default_count counts cmp) = fmt cmp"
proof (intro conjI impI)
  show "parse_file (JObj kv) mtime counts = Inl AssertionError \<longleftrightarrow>
      (\<exists>n. py_int (dict_get kv ''v'' (JInt 0)) = Inr n \<and> n \<noteq> 1)"
    by (rule parse_file_assertion)
  show "parse_file (JObj kv) mtime counts = Inl e" if "py_int (dict_get kv ''v'' (JInt 0)) = Inl e"
    using that by (rule parse_file_version_error)
  show "\<exists>cfg'. parse_file (JObj kv) mtime counts = Inr cfg'"
    if "py_int (dict_get kv ''v'' (JInt 0)) = Inr 1 \<and>
        dict_get kv ''components'' (JArr []) = JArr (map JObj kws) \<and>
        (\<forall>kw \<in> set kws. well_typed kw) \<and>
        str_field (dict_get kv ''fmt'' JNull) \<noteq> None"
    using that parse_file_returns [of kv kws mtime counts] by blast
  show "count (default_count counts cmp) =
     (case count cmp of
        Some n \<Rightarrow> Some n
      | None \<Rightarrow>
          (case counts of
             None \<Rightarrow> None
           | Some cs \<Rightarrow> Some (case name cmp of None \<Rightarrow> 1
                              | Some n \<Rightarrow> (case map_of cs n of None \<Rightarrow> 1 | Some c \<Rightarrow> c))))"
    by (rule default_count_count)
  show "name (default_count counts cmp) = name cmp" "to (default_count counts cmp) = to cmp"
    "up (default_count counts cmp) = up cmp" "fmt (default_count counts cmp) = fmt cmp"
    using default_count_others [of counts cmp] by simp_all
next
  assume r: "parse_file (JObj kv) mtime counts = Inr cfg"
  from parse_file_result [OF r]
  show "py_int (dict_get kv ''v'' (JInt 0)) = Inr 1"
    and "\<exists>kws cmps. iterate (dict_get kv ''components'' (JArr [])) = Inr (map JObj kws) \<and>
         list_all2 lists cmps kws \<and> components cfg = map (default_count counts) cmps"
    and "json_of_str (cfg_fmt cfg) = dict_get kv ''fmt'' JNull"
    and "modified cfg = Some mtime"
    by blast+
qed

text \<open>
  The theorem at a version-1 file listing \<open>Base\<close> without a count and \<open>Lid\<close> with
  count 2, read with \<^verbatim>\<open>counts = {"Base": 3}\<close>; and at a file without \<^verbatim>\<open>v\<close>.
\<close>

theorem C9_parse_file_witness:
  "parse_file
     (JObj [(''v'', JInt 1), (''fmt'', JStr ''stl''),
            (''components'', JArr [JObj [(''name'', JStr ''Base''), (''to'', JStr ''base'')],
                                  JObj [(''name'', JStr ''Lid''), (''to'', JStr ''lid''), (''count'', JInt 2)]])])
     ''2024-05-01T12:00:00'' (Some [(''Base'', 3)]) =
     Inr \<lparr>cfg_fmt = Some ''stl'',
          components = [\<lparr>name = Some ''Base'', to = Some ''base'', up = None, fmt = None, count = Some 3\<rparr>,
                        \<lparr>name = Some ''Lid'', to = Some ''lid'', up = None, fmt = None, count = Some 2\<rparr>],
          modified = Some ''2024-05-01T12:00:00''\<rparr> \<and>
   py_int (dict_get [(''v'', JInt 1), (''fmt'', JStr ''stl''),
            (''components'', JArr [JObj [(''name'', JStr ''Base''), (''to'', JStr ''base'')],
                                  JObj [(''name'', JStr ''Lid''), (''to'', JStr ''lid''), (''count'', JInt 2)]])]
       ''v'' (JInt 0)) = Inr 1 \<and>
   py_int (dict_get [(''fmt'', JStr ''stl'')] ''v'' (JInt 0)) = Inr 0 \<and>
   parse_file (JObj [(''fmt'', JStr ''stl'')]) ''2024-05-01T12:00:00'' None = Inl AssertionError \<and>
   py_int (dict_get [(''v'', JNull)] ''v'' (JInt 0)) = Inl TypeError \<and>
   parse_file (JObj [(''v'', JNull)]) ''2024-05-01T12:00:00'' None = Inl TypeError"
proof -
  let ?kv = "[(''v'', JInt 1), (''fmt'', JStr ''stl''),
            (''components'', JArr [JObj [(''name'', JStr ''Base''), (''to'', JStr ''base'')],
                                  JObj [(''name'', JStr ''Lid''), (''to'', JStr ''lid''), (''count'', JInt 2)]])]"
  let ?cfg = "\<lparr>cfg_fmt = Some ''stl'',
          components = [\<lparr>name = Some ''Base'', to = Some ''base'', up = None, fmt = None, count = Some 3\<rparr>,
                        \<lparr>name = Some ''Lid'', to = Some ''lid'', up = None, fmt = None, count = Some 2\<rparr>],
          modified = Some ''2024-05-01T12:00:00''\<rparr>"
  have good: "parse_file (JObj ?kv) ''2024-05-01T12:00:00'' (Some [(''Base'', 3)]) = Inr ?cfg"
    by (simp add: parse_file_def dict_get_def py_int_def iterate_def keyword_arguments_def
        field_names_def construct_def str_field_def int_field_def default_count_def)
  have v1: "py_int (dict_get ?kv ''v'' (JInt 0)) = Inr 1"
    using C9_parse_file [where kv = ?kv and mtime = "''2024-05-01T12:00:00''"
        and counts = "Some [(''Base'', 3)]" and cfg = ?cfg] good
    by blast
  have v0: "py_int (dict_get [(''fmt'', JStr ''stl'')] ''v'' (JInt 0)) = Inr 0"
    by (simp add: dict_get_def py_int_def)
  have a: "parse_file (JObj [(''fmt'', JStr ''stl'')]) ''2024-05-01T12:00:00'' None = Inl AssertionError"
    using C9_parse_file [where kv = "[(''fmt'', JStr ''stl'')]" and mtime = "''2024-05-01T12:00:00''"
        and counts = None] v0 by simp
  have vn: "py_int (dict_get [(''v'', JNull)] ''v'' (JInt 0)) = Inl TypeError"
    by (simp add: dict_get_def py_int_def)
  have t: "parse_file (JObj [(''v'', JNull)]) ''2024-05-01T12:00:00'' None = Inl TypeError"
    using C9_parse_file [where kv = "[(''v'', JNull)]" and mtime = "''2024-05-01T12:00:00''"
        and counts = None and e = TypeError] vn by blast
  from good v1 v0 a vn t show ?thesis by blast
qed
section \<open>The export driver\<close>

subsection \<open>One turn\<close>

lemma call_fields [simp]:
  "disk (call c h) = disk h" "manifest_file (call c h) = manifest_file h"
  "revision (call c h) = revision h" "move_features (call c h) = move_features h"
  "progress (call c h) = progress h" "calls (call c h) = calls h @ [c]"
  by (simp_all add: call_def)

lemma set_progress_fields [simp]:
  "disk (set_progress i h) = disk h" "manifest_file (set_progress i h) = manifest_file h"
  "revision (set_progress i h) = revision h" "move_features (set_progress i h) = move_features h"
  "progress (set_progress i h) = i" "calls (set_progress i h) = calls h @ [SetProgress i]"
  by (simp_all add: set_progress_def)

lemma unlink_file: "disk h p = Some File \<Longrightarrow> unlink p h = Inr (call (Unlink p) (h\<lparr>disk := (disk h)(p := None)\<rparr>))"
  by (simp add: unlink_def)

lemma unlink_fields:
  assumes "unlink p h = Inr h'"
  shows "disk h' = (disk h)(p := None)" "manifest_file h' = manifest_file h"
    "revision h' = revision h" "move_features h' = move_features h"
    "progress h' = progress h" "calls h' = calls h @ [Unlink p]" "disk h p = Some File"
  using assms by (auto simp: unlink_def split: if_splits)

lemma unlink_raises: "disk h p \<noteq> Some File \<Longrightarrow> unlink p h = Inl OSError"
  by (simp add: unlink_def)

lemma mkdir_parent_makes:
  "parent_makeable e p h \<Longrightarrow>
     mkdir_parent e p h =
       Inr (call (MakeParent p)
              (h\<lparr>disk := (\<lambda>q. if q \<in> set (parents e p) then Some Directory else disk h q)\<rparr>))"
  by (auto simp: mkdir_parent_def parent_makeable_def)

lemma mkdir_parent_raises: "\<not> parent_makeable e p h \<Longrightarrow> mkdir_parent e p h = Inl OSError"
  by (auto simp: mkdir_parent_def parent_makeable_def)

lemma parent_makeable_cong: "disk h' = disk h \<Longrightarrow> parent_makeable e p h' = parent_makeable e p h"
  by (simp add: parent_makeable_def)

lemma old_file_removable_cong:
  "disk h' = disk h \<Longrightarrow> old_file_removable e output_dir p old h' = old_file_removable e output_dir p old h"
  by (simp add: old_file_removable_def split: option.splits json.splits)

lemma path_exists_cong: "disk h' = disk h \<Longrightarrow> path_exists h' p = path_exists h p"
  by (simp add: path_exists_def)

lemma execute_fields [simp]:
  "disk (execute c p h) = (if disk h p = Some Directory then disk h else (disk h)(p \<mapsto> File))"
  "manifest_file (execute c p h) = manifest_file h"
  "revision (execute c p h) = revision h" "move_features (execute c p h) = move_features h"
  "progress (execute c p h) = progress h" "calls (execute c p h) = calls h @ [Execute c p]"
  by (simp_all add: execute_def)

lemma path_exists_execute: "path_exists (execute c p h) p"
  by (simp add: path_exists_def)

lemma add_move_fields [simp]:
  "disk (snd (add_move e c h)) = disk h" "manifest_file (snd (add_move e c h)) = manifest_file h"
  "revision (snd (add_move e c h)) = (revision h)(c := next_revision e (revision h c))"
  "move_features (snd (add_move e c h)) = (move_features h)(c := move_features h c @ [fresh_feature (move_features h c)])"
  "progress (snd (add_move e c h)) = progress h"
  "calls (snd (add_move e c h)) = calls h @ [AddMove c (fresh_feature (move_features h c))]"
  "fst (add_move e c h) = fresh_feature (move_features h c)"
  by (simp_all add: add_move_def Let_def)

lemma deleteMe_fields [simp]:
  "disk (deleteMe e c f h) = disk h" "manifest_file (deleteMe e c f h) = manifest_file h"
  "revision (deleteMe e c f h) = (revision h)(c := next_revision e (revision h c))"
  "move_features (deleteMe e c f h) = (move_features h)(c := filter (\<lambda>g. g \<noteq> f) (move_features h c))"
  "progress (deleteMe e c f h) = progress h" "calls (deleteMe e c f h) = calls h @ [DeleteMove c f]"
  by (simp_all add: deleteMe_def)

lemma item_JObj: "item (JObj kv) k = (case map_of kv k of None \<Rightarrow> Inl KeyError | Some x \<Rightarrow> Inr x)"
  by (simp add: item_def)

lemma item_Inr: "item v k = Inr x \<longleftrightarrow> (\<exists>kv. v = JObj kv \<and> map_of kv k = Some x)"
  by (auto simp: item_def split: json.splits option.splits)

lemma skip_check_iff:
  "skip_check main_cfg cmp filepath (map_of version_control file_key) h = Inr True \<longleftrightarrow>
     up_to_date main_cfg cmp file_key version_control filepath h"
proof
  assume "skip_check main_cfg cmp filepath (map_of version_control file_key) h = Inr True"
  then show "up_to_date main_cfg cmp file_key version_control filepath h"
    unfolding skip_check_def up_to_date_def
    by (auto split: option.splits if_splits sum.splits json.splits simp: item_Inr)
next
  assume "up_to_date main_cfg cmp file_key version_control filepath h"
  then obtain old c m where o: "map_of version_control file_key = Some (JObj old)"
    "map_of old ''component'' = Some (JStr (cmp_name cmp))"
    "map_of old ''revisionId'' = Some (JStr (revision h (cmp_id cmp)))"
    "path_exists h filepath" "modified main_cfg = Some m" "map_of old ''changed'' = Some (JStr c)" "c < m"
    unfolding up_to_date_def by blast
  from o(7) have "m \<noteq> []" by auto
  with o show "skip_check main_cfg cmp filepath (map_of version_control file_key) h = Inr True"
    by (simp add: skip_check_def item_JObj)
qed

lemma skip_check_set_progress [simp]:
  "skip_check main_cfg cmp filepath old (set_progress i h) = skip_check main_cfg cmp filepath old h"
  by (simp add: skip_check_def path_exists_def cong: option.case_cong sum.case_cong if_cong)

lemma up_to_date_set_progress [simp]:
  "up_to_date main_cfg cmp file_key vc filepath (set_progress i h) = up_to_date main_cfg cmp file_key vc filepath h"
  by (simp add: up_to_date_def path_exists_def)

lemma skip_check_total:
  assumes "\<forall>v. old = Some v \<longrightarrow> v = JNull \<or> well_formed_entry v"
  shows "\<exists>b. skip_check main_cfg cmp filepath old h = Inr b"
proof (cases old)
  case None then show ?thesis by (auto simp: skip_check_def)
next
  case (Some v)
  with assms have "v = JNull \<or> well_formed_entry v" by simp
  then show ?thesis
  proof
    assume "v = JNull" with Some show ?thesis by (auto simp: skip_check_def)
  next
    assume "well_formed_entry v"
    then obtain kv c f r ch where "v = JObj kv" "map_of kv ''component'' = Some (JStr c)"
        "map_of kv ''filename'' = Some (JStr f)" "map_of kv ''revisionId'' = Some (JStr r)"
        "map_of kv ''changed'' = Some (JStr ch)"
      unfolding well_formed_entry_def by blast
    with Some show ?thesis by (auto simp: skip_check_def item_JObj split: option.splits)
  qed
qed

lemma remove_renamed_total:
  assumes "\<forall>v. old = Some v \<longrightarrow> v = JNull \<or> well_formed_entry v"
    and "old_file_removable e output_dir filepath old h"
  shows "\<exists>h'. remove_renamed e output_dir filepath old h = Inr h'"
proof (cases old)
  case None then show ?thesis by (simp add: remove_renamed_def)
next
  case (Some v)
  with assms have "v = JNull \<or> well_formed_entry v" by simp
  then show ?thesis
  proof
    assume "v = JNull" with Some show ?thesis by (simp add: remove_renamed_def)
  next
    assume "well_formed_entry v"
    then obtain kv f where v: "v = JObj kv" "map_of kv ''filename'' = Some (JStr f)"
      unfolding well_formed_entry_def by blast
    show ?thesis
    proof (cases "f = filepath")
      case True
      with Some v show ?thesis by (simp add: remove_renamed_def item_JObj)
    next
      case False
      let ?q = "path_join e output_dir f"
      from assms(2) Some v False have d: "disk h ?q \<noteq> Some Directory"
        by (simp add: old_file_removable_def)
      show ?thesis
      proof (cases "disk h ?q")
        case None
        with Some v False show ?thesis
          by (simp add: remove_renamed_def item_JObj Let_def path_exists_def)
      next
        case (Some n)
        with d have "disk h ?q = Some File" by (cases n) simp_all
        with \<open>old = Some v\<close> v False show ?thesis
          by (simp add: remove_renamed_def item_JObj Let_def path_exists_def unlink_file)
      qed
    qed
  qed
qed

lemma remove_renamed_fields:
  assumes "remove_renamed e output_dir filepath old h = Inr h'"
  shows "revision h' = revision h" "move_features h' = move_features h" "progress h' = progress h"
    "manifest_file h' = manifest_file h"
    "\<exists>cs. calls h' = calls h @ cs \<and> (\<forall>c \<in> set cs. \<exists>p. c = Unlink p)"
    "disk h' a = Some File \<Longrightarrow> disk h a = Some File"
proof -
  from assms have "h' = h \<or> (\<exists>p. unlink p h = Inr h')"
    by (auto simp: remove_renamed_def Let_def split: option.splits if_splits sum.splits json.splits)
  then have "revision h' = revision h \<and> move_features h' = move_features h \<and> progress h' = progress h \<and>
    manifest_file h' = manifest_file h \<and>
    (\<exists>cs. calls h' = calls h @ cs \<and> (\<forall>c \<in> set cs. \<exists>p. c = Unlink p)) \<and>
    (disk h' a = Some File \<longrightarrow> disk h a = Some File)"
  proof
    assume "h' = h" then show ?thesis by simp
  next
    assume "\<exists>p. unlink p h = Inr h'"
    then obtain p where u: "unlink p h = Inr h'" by blast
    note f = unlink_fields [OF u]
    from f(6) have "\<exists>cs. calls h' = calls h @ cs \<and> (\<forall>c \<in> set cs. \<exists>p. c = Unlink p)" by simp
    moreover from f(1) have "disk h' a = Some File \<longrightarrow> disk h a = Some File"
      by (simp split: if_splits)
    ultimately show ?thesis using f(2,3,4,5) by simp
  qed
  then show "revision h' = revision h" "move_features h' = move_features h" "progress h' = progress h"
    "manifest_file h' = manifest_file h"
    "\<exists>cs. calls h' = calls h @ cs \<and> (\<forall>c \<in> set cs. \<exists>p. c = Unlink p)"
    "disk h' a = Some File \<Longrightarrow> disk h a = Some File"
    by simp_all
qed

lemma remove_renamed_makeable:
  assumes "remove_renamed e output_dir filepath old h = Inr h'" and "parent_makeable e p h"
  shows "parent_makeable e p h'"
  using assms(2) remove_renamed_fields(6) [OF assms(1)]
  unfolding parent_makeable_def by blast

lemma foldr_max_ge: "x \<in> set fs \<Longrightarrow> x \<le> foldr max fs (0::nat)"
  by (induction fs) auto

lemma fresh_feature_new: "fresh_feature fs \<notin> set fs"
proof
  assume "fresh_feature fs \<in> set fs"
  from foldr_max_ge [OF this] show False by (simp add: fresh_feature_def)
qed

lemma filter_fresh_feature: "filter (\<lambda>g. g \<noteq> fresh_feature fs) fs = fs"
  using fresh_feature_new [of fs] by (simp add: filter_id_conv) blast

lemma new_entry_cong:
  "revision h' = revision h \<Longrightarrow> new_entry e cmp filepath i h' = new_entry e cmp filepath i h"
  by (simp add: new_entry_def)

lemma reorient_unmoved: "\<not> moved cfg \<Longrightarrow> reorient e cfg cmp h = Inr (None, h)"
  by (simp add: reorient_def moved_def split: option.splits)

lemma reorient_moved:
  "moved cfg \<Longrightarrow> valid_up cfg \<Longrightarrow>
     reorient e cfg cmp h = Inr (Some (fresh_feature (move_features h (cmp_id cmp))), snd (add_move e (cmp_id cmp) h))"
  by (auto simp: reorient_def moved_def valid_up_def add_move_def Let_def split: option.splits)

lemma reorient_invalid: "\<not> valid_up cfg \<Longrightarrow> reorient e cfg cmp h = Inl AssertionError"
  by (auto simp: reorient_def valid_up_def VALID_ORIENTATIONS_def split: option.splits)

lemma valid_up_z: "\<not> moved cfg \<Longrightarrow> valid_up cfg"
  by (auto simp: moved_def valid_up_def VALID_ORIENTATIONS_def split: option.splits)

lemma export_component_invalid:
  "\<not> valid_up cfg \<Longrightarrow> export_component e cfg cmp i file_key filepath h vc = Inl AssertionError"
  by (simp add: export_component_def Let_def reorient_invalid)

lemma export_component_blocked:
  assumes "valid_up cfg" and "\<not> parent_makeable e filepath h"
  shows "export_component e cfg cmp i file_key filepath h vc = Inl OSError"
proof (cases "moved cfg")
  case False
  have "\<not> parent_makeable e filepath (call (Store file_key (new_entry e cmp filepath i h)) h)"
    using assms(2) by (simp add: parent_makeable_def)
  then show ?thesis using False
    by (simp add: export_component_def Let_def reorient_unmoved mkdir_parent_raises)
next
  case True
  have "\<not> parent_makeable e filepath
      (snd (add_move e (cmp_id cmp) (call (Store file_key (new_entry e cmp filepath i h)) h)))"
    using assms(2) by (simp add: parent_makeable_def)
  then show ?thesis
    by (simp add: export_component_def Let_def reorient_moved [OF True assms(1)] mkdir_parent_raises)
qed

lemma export_component_valid:
  assumes "valid_up cfg" and "parent_makeable e filepath h"
  shows "\<exists>h'. export_component e cfg cmp i file_key filepath h vc =
       Inr (if was_cancelled e i then Break else Continue, h',
            AList.update file_key (new_entry e cmp filepath i h) vc) \<and>
     calls h' = calls h @ component_calls e cfg cmp i file_key filepath h \<and>
     path_exists h' filepath \<and>
     move_features h' = move_features h \<and>
     manifest_file h' = manifest_file h \<and>
     progress h' = (if was_cancelled e i then progress h else Suc i) \<and>
     (\<not> moved cfg \<longrightarrow> revision h' = revision h)"
proof (cases "moved cfg")
  case False
  have m: "parent_makeable e filepath (call (Store file_key (new_entry e cmp filepath i h)) h)"
    using assms(2) by (simp add: parent_makeable_def)
  show ?thesis using False
    by (simp add: export_component_def Let_def reorient_unmoved component_calls_def
        mkdir_parent_makes [OF m] path_exists_def)
next
  case True
  let ?c = "cmp_id cmp"
  have mf: "(move_features h)(?c := filter (\<lambda>g. g \<noteq> fresh_feature (move_features h ?c))
        (move_features h ?c)) = move_features h"
    by (simp add: filter_fresh_feature)
  have m: "parent_makeable e filepath
      (snd (add_move e ?c (call (Store file_key (new_entry e cmp filepath i h)) h)))"
    using assms(2) by (simp add: parent_makeable_def)
  show ?thesis using True mf
    by (simp add: export_component_def Let_def reorient_moved [OF True assms(1)] component_calls_def
        mkdir_parent_makes [OF m] path_exists_def)
qed

lemma export_component_Inr:
  assumes "export_component e cfg cmp i file_key filepath h vc = Inr r"
  shows "valid_up cfg" "parent_makeable e filepath h"
proof -
  show v: "valid_up cfg"
    using assms export_component_invalid [of cfg e cmp i file_key filepath h vc] by auto
  show "parent_makeable e filepath h"
    using assms export_component_blocked [OF v, of e filepath h cmp i file_key vc] by auto
qed

lemma export_step_unfold:
  assumes "file_names cfg main_cfg = Inr (file_key, filename)"
  shows "export_step e main_cfg output_dir i (cfg, cmp) h vc =
     (case skip_check main_cfg cmp (path_join e output_dir filename) (map_of vc file_key) h of
        Inl err \<Rightarrow> Inl err
      | Inr skip \<Rightarrow>
          if skip then Inr (Continue, set_progress i h, vc)
          else
            (case remove_renamed e output_dir (path_join e output_dir filename) (map_of vc file_key)
                    (set_progress i h) of
               Inl err \<Rightarrow> Inl err
             | Inr h1 \<Rightarrow> export_component e cfg cmp i file_key (path_join e output_dir filename) h1 vc))"
  using assms by (simp add: export_step_def Let_def)

lemma export_step_names:
  "export_step e main_cfg output_dir i (cfg, cmp) h vc = Inr r \<Longrightarrow>
     \<exists>file_key filename. file_names cfg main_cfg = Inr (file_key, filename)"
  by (auto simp: export_step_def Let_def split: sum.splits)

lemma export_step_skip:
  assumes "file_names cfg main_cfg = Inr (file_key, filename)"
    and "up_to_date main_cfg cmp file_key vc (path_join e output_dir filename) h"
  shows "export_step e main_cfg output_dir i (cfg, cmp) h vc = Inr (Continue, set_progress i h, vc)"
  using assms(2) by (simp add: export_step_unfold [OF assms(1)] skip_check_iff [symmetric])

lemma export_step_export:
  assumes "file_names cfg main_cfg = Inr (file_key, filename)"
    and "\<not> up_to_date main_cfg cmp file_key vc (path_join e output_dir filename) h"
    and "export_step e main_cfg output_dir i (cfg, cmp) h vc = Inr (fl, h', vc')"
  shows "\<exists>h1. remove_renamed e output_dir (path_join e output_dir filename) (map_of vc file_key)
                (set_progress i h) = Inr h1 \<and>
           export_component e cfg cmp i file_key (path_join e output_dir filename) h1 vc = Inr (fl, h', vc')"
proof -
  from assms(2) have ns: "skip_check main_cfg cmp (path_join e output_dir filename) (map_of vc file_key) h \<noteq> Inr True"
    by (simp add: skip_check_iff)
  from assms(3) ns show ?thesis
    unfolding export_step_unfold [OF assms(1)]
    by (auto split: sum.splits if_splits)
qed

lemma export_step_returns:
  assumes "file_names cfg main_cfg = Inr (file_key, filename)"
    and "\<forall>v. map_of vc file_key = Some v \<longrightarrow> v = JNull \<or> well_formed_entry v"
    and "valid_up cfg"
    and "old_file_removable e output_dir (path_join e output_dir filename) (map_of vc file_key) h"
    and "parent_makeable e (path_join e output_dir filename) h"
  shows "\<exists>fl h' vc'. export_step e main_cfg output_dir i (cfg, cmp) h vc = Inr (fl, h', vc')"
proof -
  let ?p = "path_join e output_dir filename"
  from skip_check_total [OF assms(2)] obtain b where
    b: "skip_check main_cfg cmp ?p (map_of vc file_key) h = Inr b" by blast
  from assms(4) have "old_file_removable e output_dir ?p (map_of vc file_key) (set_progress i h)"
    using old_file_removable_cong [where h' = "set_progress i h" and h = h] by simp
  from remove_renamed_total [OF assms(2) this] obtain h1 where
    h1: "remove_renamed e output_dir ?p (map_of vc file_key) (set_progress i h) = Inr h1" by blast
  from assms(5) have "parent_makeable e ?p (set_progress i h)"
    by (simp add: parent_makeable_def)
  from remove_renamed_makeable [OF h1 this] have m: "parent_makeable e ?p h1" .
  from export_component_valid [OF assms(3) m, of cmp i file_key vc] obtain fl h' vc' where
    "export_component e cfg cmp i file_key ?p h1 vc = Inr (fl, h', vc')" by blast
  with b h1 show ?thesis by (simp add: export_step_unfold [OF assms(1)])
qed

lemma export_step_invalid:
  assumes "file_names cfg main_cfg = Inr (file_key, filename)"
    and "\<not> up_to_date main_cfg cmp file_key vc (path_join e output_dir filename) h"
    and "\<forall>v. map_of vc file_key = Some v \<longrightarrow> v = JNull \<or> well_formed_entry v"
    and "old_file_removable e output_dir (path_join e output_dir filename) (map_of vc file_key) h"
    and "\<not> valid_up cfg"
  shows "export_step e main_cfg output_dir i (cfg, cmp) h vc = Inl AssertionError"
proof -
  let ?p = "path_join e output_dir filename"
  from skip_check_total [OF assms(3)] obtain b where
    b: "skip_check main_cfg cmp ?p (map_of vc file_key) h = Inr b" by blast
  with assms(2) have nb: "\<not> b" by (auto simp: skip_check_iff [symmetric])
  from assms(4) have "old_file_removable e output_dir ?p (map_of vc file_key) (set_progress i h)"
    using old_file_removable_cong [where h' = "set_progress i h" and h = h] by simp
  from remove_renamed_total [OF assms(3) this] obtain h1 where
    h1: "remove_renamed e output_dir ?p (map_of vc file_key) (set_progress i h) = Inr h1" by blast
  from b nb h1 show ?thesis
    by (simp add: export_step_unfold [OF assms(1)] export_component_invalid [OF assms(5)])
qed

lemma new_calls_append: "calls h' = calls h @ cs \<Longrightarrow> new_calls h h' = cs"
  by (simp add: new_calls_def)

lemma export_step_shape:
  assumes "export_step e main_cfg output_dir i (cfg, cmp) h vc = Inr (fl, h', vc')"
  shows "\<exists>file_key filename. file_names cfg main_cfg = Inr (file_key, filename) \<and>
     ((up_to_date main_cfg cmp file_key vc (path_join e output_dir filename) h \<and>
       fl = Continue \<and> h' = set_progress i h \<and> vc' = vc) \<or>
      (\<not> up_to_date main_cfg cmp file_key vc (path_join e output_dir filename) h \<and> valid_up cfg \<and>
       fl = (if was_cancelled e i then Break else Continue) \<and>
       vc' = AList.update file_key (new_entry e cmp (path_join e output_dir filename) i h) vc \<and>
       (\<exists>us. (\<forall>c \<in> set us. \<exists>p. c = Unlink p) \<and>
          calls h' = calls h @ [SetProgress i] @ us @
            component_calls e cfg cmp i file_key (path_join e output_dir filename) h) \<and>
       move_features h' = move_features h \<and> manifest_file h' = manifest_file h \<and>
       progress h' = (if was_cancelled e i then i else Suc i) \<and>
       path_exists h' (path_join e output_dir filename)))"
proof -
  from export_step_names [OF assms] obtain file_key filename where
    n: "file_names cfg main_cfg = Inr (file_key, filename)" by blast
  let ?p = "path_join e output_dir filename"
  show ?thesis
  proof (cases "up_to_date main_cfg cmp file_key vc ?p h")
    case True
    from export_step_skip [OF n True, of i] assms n True show ?thesis by simp
  next
    case False
    from export_step_export [OF n False assms] obtain h1 where
      r: "remove_renamed e output_dir ?p (map_of vc file_key) (set_progress i h) = Inr h1" and
      c: "export_component e cfg cmp i file_key ?p h1 vc = Inr (fl, h', vc')" by blast
    from export_component_Inr [OF c] have v: "valid_up cfg" and pm: "parent_makeable e ?p h1" .
    note f = remove_renamed_fields [OF r]
    from f(5) obtain us where us: "calls h1 = calls (set_progress i h) @ us"
      "\<forall>c \<in> set us. \<exists>p. c = Unlink p" by blast
    from f(1) have rev: "revision h1 = revision h" by simp
    from f(2) have mf: "move_features h1 = move_features h" by simp
    have ne: "new_entry e cmp ?p i h1 = new_entry e cmp ?p i h"
      using rev by (rule new_entry_cong)
    have cc: "component_calls e cfg cmp i file_key ?p h1 = component_calls e cfg cmp i file_key ?p h"
      by (simp add: component_calls_def ne mf)
    from export_component_valid [OF v pm, of cmp i file_key vc] c
    have "fl = (if was_cancelled e i then Break else Continue)"
      and "vc' = AList.update file_key (new_entry e cmp ?p i h1) vc"
      and "calls h' = calls h1 @ component_calls e cfg cmp i file_key ?p h1"
      and "path_exists h' ?p"
      and "move_features h' = move_features h1"
      and "manifest_file h' = manifest_file h1"
      and "progress h' = (if was_cancelled e i then progress h1 else Suc i)"
      by auto
    with us f(2,3,4) ne cc n False v show ?thesis by auto
  qed
qed

lemma file_names_shape:
  assumes "file_names cfg main_cfg = Inr (file_key, filename)"
  shows "\<exists>file_to ext. to cfg = Some file_to \<and> py_or (fmt cfg) (cfg_fmt main_cfg) = Some ext \<and>
     file_key = (if endswith file_to ext
                 then (if ext = [] then [] else take (length file_to - length ext) file_to)
                 else file_to) \<and>
     filename = file_key @ (case count cfg of None \<Rightarrow> [] | Some n \<Rightarrow> ''_x'' @ str_of_int n) @ ''.'' @ ext"
proof (cases "to cfg")
  case None
  with assms show ?thesis by (simp add: file_names_def)
next
  case (Some file_to)
  note t = this
  show ?thesis
  proof (cases "py_or (fmt cfg) (cfg_fmt main_cfg)")
    case None
    with assms t show ?thesis by (simp add: file_names_def)
  next
    case (Some ext)
    show ?thesis
    proof (cases "count cfg")
      case None
      with assms t Some show ?thesis by (auto simp: file_names_def Let_def split: if_splits)
    next
      case (Some n)
      with assms t \<open>py_or (fmt cfg) (cfg_fmt main_cfg) = Some ext\<close> show ?thesis
        by (auto simp: file_names_def Let_def split: if_splits)
    qed
  qed
qed

lemma file_names_differ:
  assumes "file_names cfg main_cfg = Inr (file_key, filename)"
  shows "filename \<noteq> file_key"
proof -
  from file_names_shape [OF assms] obtain ext where
    "filename = file_key @ (case count cfg of None \<Rightarrow> [] | Some n \<Rightarrow> ''_x'' @ str_of_int n) @ ''.'' @ ext"
    by blast
  then have "length filename > length file_key" by simp
  then show ?thesis by auto
qed

lemma skip_check_None [simp]: "skip_check main_cfg cmp filepath None h = Inr False"
  by (simp add: skip_check_def)

lemma remove_renamed_None [simp]: "remove_renamed e output_dir filepath None h = Inr h"
  by (simp add: remove_renamed_def)

lemma skip_check_call [simp]:
  "skip_check main_cfg cmp filepath old (call c h) = skip_check main_cfg cmp filepath old h"
  by (simp add: skip_check_def path_exists_def cong: option.case_cong sum.case_cong if_cong)

lemma component_calls_nonempty: "component_calls e cfg cmp i file_key filepath h \<noteq> []"
  by (simp add: component_calls_def)

lemma component_calls_members:
  "Store file_key (new_entry e cmp filepath i h) \<in> set (component_calls e cfg cmp i file_key filepath h)"
  "Execute (cmp_id cmp) filepath \<in> set (component_calls e cfg cmp i file_key filepath h)"
  by (simp_all add: component_calls_def)

subsection \<open>The small assembly\<close>

lemma example_fields:
  "path_join example_env d f = d @ ''/'' @ f" "parents example_env p = [''out'', ''.'']"
  "root_comp_name example_env = ''Assembly''"
  "now example_env i = ''2024-06-01T00:00:00''" "was_cancelled example_env i = False"
  "cmp_id base_cmp = 1" "cmp_name base_cmp = ''Base''"
  "name base_cfg = Some ''Base''" "up base_cfg = None"
  "modified example_main = Some ''2024-05-15T00:00:00''" "components example_main = [base_cfg]"
  "disk example_host = [''out/base.stl'' \<mapsto> File, ''out'' \<mapsto> Directory]"
  "manifest_file example_host = Some [(''base'', base_entry)]"
  "revision example_host c = ''r1''" "move_features example_host c = []"
  "progress example_host = 0" "calls example_host = []"
  "disk fresh_host = Map.empty" "manifest_file fresh_host = None"
  "revision fresh_host c = ''r1''" "move_features fresh_host c = []"
  "progress fresh_host = 0" "calls fresh_host = []"
  by (simp_all add: example_env_def base_cmp_def base_cfg_def example_main_def example_host_def
      fresh_host_def)

lemma base_names: "file_names base_cfg example_main = Inr (''base'', ''base.stl'')"
  by (simp add: file_names_def base_cfg_def example_main_def py_or_def endswith_def)

lemma base_up_to_date:
  "up_to_date example_main base_cmp ''base'' [(''base'', base_entry)] ''out/base.stl'' example_host"
  by (simp add: up_to_date_def example_main_def base_cmp_def base_entry_def example_host_def
      path_exists_def)

lemma base_not_up_to_date:
  "\<not> up_to_date example_main base_cmp ''base'' [] ''out/base.stl'' fresh_host"
  by (simp add: up_to_date_def)

lemma base_valid_up: "valid_up base_cfg"
  by (simp add: valid_up_def base_cfg_def)

lemma example_join: "path_join example_env ''out'' ''base.stl'' = ''out/base.stl''"
  by (simp add: example_env_def)

lemma sel: "selected example_main (IsComponent base_cmp) = [(base_cfg, base_cmp)]"
  by (simp add: selected_def example_fields List.map_filter_def base_cmp_def)

lemma moved_base: "\<not> moved base_cfg"
  by (simp add: moved_def example_fields)

lemma run_fresh_calls:
  "map_sum id calls (export example_env example_main ''out'' (IsComponent base_cmp) fresh_host) =
     Inr [Show 1, SetProgress 0,
          Store ''base'' (JObj [(''component'', JStr ''Base''), (''filename'', JStr ''out/base.stl''),
            (''revisionId'', JStr ''r1''), (''fromDocument'', JStr ''Assembly''),
            (''changed'', JStr ''2024-06-01T00:00:00'')]),
          MakeParent ''out/base.stl'', Execute 1 ''out/base.stl'', SetProgress 1, Hide]"
  by (simp add: export_def sel export_step_unfold [OF base_names] example_fields
      export_component_def Let_def reorient_unmoved [OF moved_base] new_entry_def mkdir_parent_def)



lemma map_sum_Inr: "map_sum id f x = Inr y \<Longrightarrow> \<exists>z. x = Inr z \<and> f z = y"
  by (cases x) auto

lemma step_fresh_calls:
  "map_sum id (calls \<circ> fst \<circ> snd)
     (export_step example_env example_main ''out'' 0 (base_cfg, base_cmp) fresh_host []) =
     Inr [SetProgress 0,
          Store ''base'' (JObj [(''component'', JStr ''Base''), (''filename'', JStr ''out/base.stl''),
            (''revisionId'', JStr ''r1''), (''fromDocument'', JStr ''Assembly''),
            (''changed'', JStr ''2024-06-01T00:00:00'')]),
          MakeParent ''out/base.stl'', Execute 1 ''out/base.stl'', SetProgress 1]"
  by (simp add: export_step_unfold [OF base_names] example_fields
      export_component_def Let_def reorient_unmoved [OF moved_base] new_entry_def mkdir_parent_def)

lemma step_fresh:
  "\<exists>fl h' vc'. export_step example_env example_main ''out'' 0 (base_cfg, base_cmp) fresh_host [] =
       Inr (fl, h', vc') \<and>
     new_calls fresh_host h' =
       [SetProgress 0,
        Store ''base'' (JObj [(''component'', JStr ''Base''), (''filename'', JStr ''out/base.stl''),
          (''revisionId'', JStr ''r1''), (''fromDocument'', JStr ''Assembly''),
          (''changed'', JStr ''2024-06-01T00:00:00'')]),
        MakeParent ''out/base.stl'', Execute 1 ''out/base.stl'', SetProgress 1]"
proof -
  from map_sum_Inr [OF step_fresh_calls] obtain z where
    z: "export_step example_env example_main ''out'' 0 (base_cfg, base_cmp) fresh_host [] = Inr z"
    and c: "(calls \<circ> fst \<circ> snd) z =
       [SetProgress 0,
        Store ''base'' (JObj [(''component'', JStr ''Base''), (''filename'', JStr ''out/base.stl''),
          (''revisionId'', JStr ''r1''), (''fromDocument'', JStr ''Assembly''),
          (''changed'', JStr ''2024-06-01T00:00:00'')]),
        MakeParent ''out/base.stl'', Execute 1 ''out/base.stl'', SetProgress 1]"
    by blast
  obtain fl h' vc' where "z = (fl, h', vc')" by (cases z)
  with z c show ?thesis by (simp add: new_calls_def example_fields)
qed

lemma other_fields:
  "disk other_host = Map.empty" "manifest_file other_host = Some [(''lid'', base_entry)]"
  "revision other_host c = ''r1''" "move_features other_host c = []"
  "progress other_host = 0" "calls other_host = []"
  by (simp_all add: other_host_def)

lemma run_other_calls:
  "map_sum id calls (export example_env example_main ''out'' (IsComponent base_cmp) other_host) =
     Inr [Show 1, SetProgress 0,
          Store ''base'' (JObj [(''component'', JStr ''Base''), (''filename'', JStr ''out/base.stl''),
            (''revisionId'', JStr ''r1''), (''fromDocument'', JStr ''Assembly''),
            (''changed'', JStr ''2024-06-01T00:00:00'')]),
          MakeParent ''out/base.stl'', Execute 1 ''out/base.stl'', SetProgress 1, Hide]"
  by (simp add: export_def sel export_step_unfold [OF base_names] example_fields other_fields
      export_component_def Let_def reorient_unmoved [OF moved_base] new_entry_def mkdir_parent_def)
subsection \<open>Skipping and exporting\<close>

text \<open>
  Claim C1, as stated, fails: a configured component need not be either skipped or
  exported. \<open>Base\<close> configured with \<^verbatim>\<open>up = "w"\<close>, with no manifest and no mesh file,
  does not meet the skip condition, and its turn ends in the \<^verbatim>\<open>AssertionError\<close> of
  line 232: no mesh export is made and \<^verbatim>\<open>export\<close> raises before it writes the manifest.
\<close>

theorem C1_invalid_orientation_counterexample:
  "file_names tilted_cfg example_main = Inr (''base'', ''base.stl'') \<and>
   \<not> up_to_date example_main base_cmp ''base'' [] ''out/base.stl'' fresh_host \<and>
   export_step example_env example_main ''out'' 0 (tilted_cfg, base_cmp) fresh_host [] =
     Inl AssertionError \<and>
   export example_env (example_main\<lparr>components := [tilted_cfg]\<rparr>) ''out'' (IsComponent base_cmp) fresh_host =
     Inl AssertionError"
proof -
  have n: "file_names tilted_cfg example_main = Inr (''base'', ''base.stl'')"
    by (simp add: file_names_def tilted_cfg_def example_main_def py_or_def endswith_def)
  have u: "\<not> up_to_date example_main base_cmp ''base'' [] ''out/base.stl'' fresh_host"
    by (simp add: up_to_date_def)
  have v: "\<not> valid_up tilted_cfg"
    by (simp add: valid_up_def tilted_cfg_def VALID_ORIENTATIONS_def)
  have s: "export_step example_env example_main ''out'' i (tilted_cfg, base_cmp) h [] = Inl AssertionError"
    for i h
    by (simp add: export_step_unfold [OF n] export_component_invalid [OF v])
  have m: "file_names tilted_cfg (example_main\<lparr>components := [tilted_cfg]\<rparr>) = Inr (''base'', ''base.stl'')"
    by (simp add: file_names_def tilted_cfg_def example_main_def py_or_def endswith_def)
  have l: "selected (example_main\<lparr>components := [tilted_cfg]\<rparr>) (IsComponent base_cmp) =
      [(tilted_cfg, base_cmp)]"
    by (simp add: selected_def List.map_filter_def base_cmp_def tilted_cfg_def)
  have x: "export example_env (example_main\<lparr>components := [tilted_cfg]\<rparr>) ''out'' (IsComponent base_cmp)
      fresh_host = Inl AssertionError"
    by (simp add: export_def l export_step_unfold [OF m] export_component_invalid [OF v] example_fields)
  from n u s x show ?thesis by simp
qed

text \<open>
  Claim C1, amended. In the turn of a configured component whose file names can be
  formed, the component is skipped (the turn ends after setting the progress value,
  with no mesh export and the manifest as it was) if and only if the manifest has an
  entry under the component's file key whose recorded component name and revision id
  are the component's, the target path exists, and the config's modification time is
  set and later than the entry's \<^verbatim>\<open>changed\<close> time. A turn that returns without
  meeting that condition has exported the component to the target path and rewritten
  its manifest entry, and the configured orientation was unset or one of the six. The
  turn does return when, besides, the entry found under the key (if any) is
  \<^verbatim>\<open>null\<close> or has the fields the code reads, as strings, the file it records under
  another name is not a directory, no directory the target lies in is there as a
  regular file, and the orientation is unset or one of the six. With an orientation
  that is none of the six it raises \<^verbatim>\<open>AssertionError\<close> instead, and the component is
  neither skipped nor exported.
\<close>

theorem C1_skip_decision:
  assumes "file_names cfg main_cfg = Inr (file_key, filename)"
  shows "(up_to_date main_cfg cmp file_key vc (path_join e output_dir filename) h \<longleftrightarrow>
            export_step e main_cfg output_dir i (cfg, cmp) h vc = Inr (Continue, set_progress i h, vc)) \<and>
         new_calls h (set_progress i h) = [SetProgress i] \<and>
         (\<not> up_to_date main_cfg cmp file_key vc (path_join e output_dir filename) h \<and>
          export_step e main_cfg output_dir i (cfg, cmp) h vc = Inr (fl, h', vc') \<longrightarrow>
            vc' = AList.update file_key (new_entry e cmp (path_join e output_dir filename) i h) vc \<and>
            Store file_key (new_entry e cmp (path_join e output_dir filename) i h)
              \<in> set (new_calls h h') \<and>
            Execute (cmp_id cmp) (path_join e output_dir filename) \<in> set (new_calls h h') \<and>
            path_exists h' (path_join e output_dir filename) \<and>
            valid_up cfg) \<and>
         (\<not> up_to_date main_cfg cmp file_key vc (path_join e output_dir filename) h \<and>
          (\<forall>v. map_of vc file_key = Some v \<longrightarrow> v = JNull \<or> well_formed_entry v) \<and>
          old_file_removable e output_dir (path_join e output_dir filename) (map_of vc file_key) h \<and>
          parent_makeable e (path_join e output_dir filename) h \<and>
          valid_up cfg \<longrightarrow>
            (\<exists>fl h1. export_step e main_cfg output_dir i (cfg, cmp) h vc =
                 Inr (fl, h1, AList.update file_key
                                (new_entry e cmp (path_join e output_dir filename) i h) vc) \<and>
               Store file_key (new_entry e cmp (path_join e output_dir filename) i h)
                 \<in> set (new_calls h h1) \<and>
               Execute (cmp_id cmp) (path_join e output_dir filename) \<in> set (new_calls h h1) \<and>
               path_exists h1 (path_join e output_dir filename))) \<and>
         (\<not> up_to_date main_cfg cmp file_key vc (path_join e output_dir filename) h \<and>
          (\<forall>v. map_of vc file_key = Some v \<longrightarrow> v = JNull \<or> well_formed_entry v) \<and>
          old_file_removable e output_dir (path_join e output_dir filename) (map_of vc file_key) h \<and>
          \<not> valid_up cfg \<longrightarrow>
            export_step e main_cfg output_dir i (cfg, cmp) h vc = Inl AssertionError)"
proof -
  let ?p = "path_join e output_dir filename"
  let ?step = "export_step e main_cfg output_dir i (cfg, cmp) h vc"
  let ?entry = "new_entry e cmp ?p i h"
  have exported: "w = AList.update file_key ?entry vc \<and> Store file_key ?entry \<in> set (new_calls h g) \<and>
      Execute (cmp_id cmp) ?p \<in> set (new_calls h g) \<and> path_exists g ?p \<and> valid_up cfg"
    if n: "\<not> up_to_date main_cfg cmp file_key vc ?p h" and r: "?step = Inr (f, g, w)" for f g w
  proof -
    from export_step_shape [OF r] assms n obtain us where
      w: "w = AList.update file_key ?entry vc" and
      cs: "calls g = calls h @ [SetProgress i] @ us @ component_calls e cfg cmp i file_key ?p h" and
      p: "path_exists g ?p" and v: "valid_up cfg" by auto
    from cs have nc: "new_calls h g = [SetProgress i] @ us @ component_calls e cfg cmp i file_key ?p h"
      by (rule new_calls_append)
    from w p v show ?thesis unfolding nc by (simp add: component_calls_members)
  qed
  have 1: "up_to_date main_cfg cmp file_key vc ?p h \<longleftrightarrow> ?step = Inr (Continue, set_progress i h, vc)"
  proof
    assume "up_to_date main_cfg cmp file_key vc ?p h"
    with assms show "?step = Inr (Continue, set_progress i h, vc)"
      by (rule export_step_skip)
  next
    assume s: "?step = Inr (Continue, set_progress i h, vc)"
    show "up_to_date main_cfg cmp file_key vc ?p h"
    proof (rule ccontr)
      assume n: "\<not> up_to_date main_cfg cmp file_key vc ?p h"
      from exported [OF n s] have "Execute (cmp_id cmp) ?p \<in> set (new_calls h (set_progress i h))"
        by simp
      then show False by (simp add: new_calls_def)
    qed
  qed
  have 2: "new_calls h (set_progress i h) = [SetProgress i]"
    by (simp add: new_calls_def)
  have 3: "\<not> up_to_date main_cfg cmp file_key vc ?p h \<and> ?step = Inr (fl, h', vc') \<longrightarrow>
      vc' = AList.update file_key ?entry vc \<and> Store file_key ?entry \<in> set (new_calls h h') \<and>
      Execute (cmp_id cmp) ?p \<in> set (new_calls h h') \<and> path_exists h' ?p \<and> valid_up cfg"
    using exported by blast
  have 4: "\<not> up_to_date main_cfg cmp file_key vc ?p h \<and>
      (\<forall>v. map_of vc file_key = Some v \<longrightarrow> v = JNull \<or> well_formed_entry v) \<and>
      old_file_removable e output_dir ?p (map_of vc file_key) h \<and>
      parent_makeable e ?p h \<and> valid_up cfg \<longrightarrow>
    (\<exists>fl h1. ?step = Inr (fl, h1, AList.update file_key ?entry vc) \<and>
      Store file_key ?entry \<in> set (new_calls h h1) \<and>
      Execute (cmp_id cmp) ?p \<in> set (new_calls h h1) \<and> path_exists h1 ?p)"
  proof (rule impI)
    assume a: "\<not> up_to_date main_cfg cmp file_key vc ?p h \<and>
      (\<forall>v. map_of vc file_key = Some v \<longrightarrow> v = JNull \<or> well_formed_entry v) \<and>
      old_file_removable e output_dir ?p (map_of vc file_key) h \<and>
      parent_makeable e ?p h \<and> valid_up cfg"
    from a have n: "\<not> up_to_date main_cfg cmp file_key vc ?p h"
      and wf: "\<forall>v. map_of vc file_key = Some v \<longrightarrow> v = JNull \<or> well_formed_entry v"
      and o: "old_file_removable e output_dir ?p (map_of vc file_key) h"
      and m: "parent_makeable e ?p h" and v: "valid_up cfg" by simp_all
    from export_step_returns [OF assms wf v o m, of i cmp] obtain f g w where
      r: "?step = Inr (f, g, w)" by blast
    from exported [OF n r] r
    show "\<exists>fl h1. ?step = Inr (fl, h1, AList.update file_key ?entry vc) \<and>
      Store file_key ?entry \<in> set (new_calls h h1) \<and>
      Execute (cmp_id cmp) ?p \<in> set (new_calls h h1) \<and> path_exists h1 ?p" by blast
  qed
  have 5: "\<not> up_to_date main_cfg cmp file_key vc ?p h \<and>
      (\<forall>v. map_of vc file_key = Some v \<longrightarrow> v = JNull \<or> well_formed_entry v) \<and>
      old_file_removable e output_dir ?p (map_of vc file_key) h \<and> \<not> valid_up cfg \<longrightarrow>
    ?step = Inl AssertionError"
  proof (rule impI)
    assume a: "\<not> up_to_date main_cfg cmp file_key vc ?p h \<and>
      (\<forall>v. map_of vc file_key = Some v \<longrightarrow> v = JNull \<or> well_formed_entry v) \<and>
      old_file_removable e output_dir ?p (map_of vc file_key) h \<and> \<not> valid_up cfg"
    from a have n: "\<not> up_to_date main_cfg cmp file_key vc ?p h"
      and wf: "\<forall>v. map_of vc file_key = Some v \<longrightarrow> v = JNull \<or> well_formed_entry v"
      and o: "old_file_removable e output_dir ?p (map_of vc file_key) h"
      and v: "\<not> valid_up cfg" by simp_all
    from assms n wf o v show "?step = Inl AssertionError" by (rule export_step_invalid)
  qed
  show ?thesis by (rule conjI [OF 1 conjI [OF 2 conjI [OF 3 conjI [OF 4 5]]]])
qed

text \<open>
  The theorem at the small assembly: \<open>Base\<close> is skipped when its entry is up to
  date, exported when there is no manifest, and its turn raises when it is configured
  with \<^verbatim>\<open>up = "w"\<close>.
\<close>

theorem C1_skip_decision_witness:
  "file_names base_cfg example_main = Inr (''base'', ''base.stl'') \<and>
   up_to_date example_main base_cmp ''base'' [(''base'', base_entry)] ''out/base.stl'' example_host \<and>
   export_step example_env example_main ''out'' 0 (base_cfg, base_cmp) example_host [(''base'', base_entry)] =
     Inr (Continue, set_progress 0 example_host, [(''base'', base_entry)]) \<and>
   \<not> up_to_date example_main base_cmp ''base'' [] ''out/base.stl'' fresh_host \<and>
   old_file_removable example_env ''out'' ''out/base.stl'' None fresh_host \<and>
   parent_makeable example_env ''out/base.stl'' fresh_host \<and>
   valid_up base_cfg \<and>
   (\<exists>fl h'. export_step example_env example_main ''out'' 0 (base_cfg, base_cmp) fresh_host [] =
        Inr (fl, h', [(''base'', new_entry example_env base_cmp ''out/base.stl'' 0 fresh_host)]) \<and>
      Execute 1 ''out/base.stl'' \<in> set (new_calls fresh_host h') \<and> path_exists h' ''out/base.stl'') \<and>
   file_names tilted_cfg example_main = Inr (''base'', ''base.stl'') \<and>
   \<not> valid_up tilted_cfg \<and>
   export_step example_env example_main ''out'' 0 (tilted_cfg, base_cmp) fresh_host [] = Inl AssertionError"
proof -
  have o: "old_file_removable example_env ''out'' ''out/base.stl'' None fresh_host"
    by (simp add: old_file_removable_def)
  have m: "parent_makeable example_env ''out/base.stl'' fresh_host"
    by (simp add: parent_makeable_def example_fields)
  have n: "file_names tilted_cfg example_main = Inr (''base'', ''base.stl'')"
    by (simp add: file_names_def tilted_cfg_def example_main_def py_or_def endswith_def)
  have v: "\<not> valid_up tilted_cfg"
    by (simp add: valid_up_def tilted_cfg_def VALID_ORIENTATIONS_def)
  note skip = C1_skip_decision [OF base_names, where cmp = base_cmp and vc = "[(''base'', base_entry)]"
      and e = example_env and output_dir = "''out''" and h = example_host and i = 0, THEN conjunct1]
  note run = C1_skip_decision [OF base_names, where cmp = base_cmp and vc = "[]"
      and e = example_env and output_dir = "''out''" and h = fresh_host and i = 0,
      THEN conjunct2, THEN conjunct2, THEN conjunct2, THEN conjunct1]
  note fail = C1_skip_decision [OF n, where cmp = base_cmp and vc = "[]"
      and e = example_env and output_dir = "''out''" and h = fresh_host and i = 0,
      THEN conjunct2, THEN conjunct2, THEN conjunct2, THEN conjunct2]
  from skip base_up_to_date
  have s: "export_step example_env example_main ''out'' 0 (base_cfg, base_cmp) example_host [(''base'', base_entry)] =
     Inr (Continue, set_progress 0 example_host, [(''base'', base_entry)])"
    by (simp add: example_join)
  from run base_not_up_to_date base_valid_up o m
  have r: "\<exists>fl h'. export_step example_env example_main ''out'' 0 (base_cfg, base_cmp) fresh_host [] =
        Inr (fl, h', [(''base'', new_entry example_env base_cmp ''out/base.stl'' 0 fresh_host)]) \<and>
      Execute 1 ''out/base.stl'' \<in> set (new_calls fresh_host h') \<and> path_exists h' ''out/base.stl''"
    by (simp add: example_join base_cmp_def) blast
  from fail base_not_up_to_date o v
  have f: "export_step example_env example_main ''out'' 0 (tilted_cfg, base_cmp) fresh_host [] = Inl AssertionError"
    by (simp add: example_join)
  from s r f base_names base_up_to_date base_not_up_to_date base_valid_up o m n v show ?thesis
    by (intro conjI)
qed
subsection \<open>A run is a sequence of turns\<close>

lemma stores_append [simp]: "stores (cs @ ds) = stores cs @ stores ds"
  by (induction cs rule: stores.induct) simp_all

lemma executed_append [simp]: "executed (cs @ ds) = executed cs @ executed ds"
  by (induction cs rule: executed.induct) simp_all

lemma reorientation_append [simp]: "reorientation (cs @ ds) = reorientation cs @ reorientation ds"
  by (induction cs rule: reorientation.induct) simp_all

lemma last_progress_append [simp]: "last_progress p (cs @ ds) = last_progress (last_progress p cs) ds"
  by (induction p cs rule: last_progress.induct) simp_all

lemma unlinks_silent:
  assumes "\<forall>c \<in> set us. \<exists>p. c = Unlink p"
  shows "stores us = []" "executed us = []" "reorientation us = []" "last_progress p us = p"
  using assms by (induction us) auto

lemma component_calls_stores:
  "stores (component_calls e cfg cmp i file_key filepath h) = [(file_key, new_entry e cmp filepath i h)]"
  by (simp add: component_calls_def)

lemma component_calls_executed:
  "executed (component_calls e cfg cmp i file_key filepath h) = [(cmp_id cmp, filepath)]"
  by (simp add: component_calls_def)

lemma component_calls_reorientation:
  "reorientation (component_calls e cfg cmp i file_key filepath h) =
     (if moved cfg
      then [AddMove (cmp_id cmp) (fresh_feature (move_features h (cmp_id cmp))),
            Execute (cmp_id cmp) filepath,
            DeleteMove (cmp_id cmp) (fresh_feature (move_features h (cmp_id cmp)))]
      else [Execute (cmp_id cmp) filepath])"
  by (simp add: component_calls_def)

lemma component_calls_progress:
  "last_progress p (component_calls e cfg cmp i file_key filepath h) =
     (if was_cancelled e i then p else Suc i)"
  by (simp add: component_calls_def)

lemma is_entry_new_entry: "is_entry (new_entry e cmp filepath i h)"
  by (auto simp: is_entry_def new_entry_def)

lemma export_step_turn:
  assumes "export_step e main_cfg output_dir i x h vc = Inr (fl, h', vc')"
  shows "\<exists>cs. turn_of e main_cfg output_dir i x cs \<and> calls h' = calls h @ cs \<and>
     map_of vc' = map_of vc ++ map_of (rev (stores cs)) \<and>
     move_features h' = move_features h \<and> manifest_file h' = manifest_file h \<and>
     progress h' = last_progress (progress h) cs \<and>
     (fl = Break \<longrightarrow> was_cancelled e i \<and> executed cs \<noteq> [])"
proof -
  obtain cfg cmp where x: "x = (cfg, cmp)" by (cases x)
  from export_step_shape [OF assms [unfolded x]] obtain file_key filename where
    n: "file_names cfg main_cfg = Inr (file_key, filename)" and
    d: "(up_to_date main_cfg cmp file_key vc (path_join e output_dir filename) h \<and>
         fl = Continue \<and> h' = set_progress i h \<and> vc' = vc) \<or>
        (\<not> up_to_date main_cfg cmp file_key vc (path_join e output_dir filename) h \<and> valid_up cfg \<and>
         fl = (if was_cancelled e i then Break else Continue) \<and>
         vc' = AList.update file_key (new_entry e cmp (path_join e output_dir filename) i h) vc \<and>
         (\<exists>us. (\<forall>c \<in> set us. \<exists>p. c = Unlink p) \<and>
            calls h' = calls h @ [SetProgress i] @ us @
              component_calls e cfg cmp i file_key (path_join e output_dir filename) h) \<and>
         move_features h' = move_features h \<and> manifest_file h' = manifest_file h \<and>
         progress h' = (if was_cancelled e i then i else Suc i) \<and>
         path_exists h' (path_join e output_dir filename))"
    by blast
  let ?p = "path_join e output_dir filename"
  from d show ?thesis
  proof
    assume s: "up_to_date main_cfg cmp file_key vc ?p h \<and> fl = Continue \<and> h' = set_progress i h \<and> vc' = vc"
    have "turn_of e main_cfg output_dir i x [SetProgress i]"
      using n by (auto simp: turn_of_def x)
    with s show ?thesis by (intro exI [of _ "[SetProgress i]"]) simp
  next
    assume a: "\<not> up_to_date main_cfg cmp file_key vc ?p h \<and> valid_up cfg \<and>
         fl = (if was_cancelled e i then Break else Continue) \<and>
         vc' = AList.update file_key (new_entry e cmp ?p i h) vc \<and>
         (\<exists>us. (\<forall>c \<in> set us. \<exists>p. c = Unlink p) \<and>
            calls h' = calls h @ [SetProgress i] @ us @ component_calls e cfg cmp i file_key ?p h) \<and>
         move_features h' = move_features h \<and> manifest_file h' = manifest_file h \<and>
         progress h' = (if was_cancelled e i then i else Suc i) \<and> path_exists h' ?p"
    then obtain us where us: "\<forall>c \<in> set us. \<exists>p. c = Unlink p"
      and cs: "calls h' = calls h @ [SetProgress i] @ us @ component_calls e cfg cmp i file_key ?p h"
      by blast
    let ?cs = "[SetProgress i] @ us @ component_calls e cfg cmp i file_key ?p h"
    have t: "turn_of e main_cfg output_dir i x ?cs"
      unfolding turn_of_def x using n a us by auto
    have st: "stores ?cs = [(file_key, new_entry e cmp ?p i h)]"
      by (simp add: unlinks_silent [OF us] component_calls_stores)
    have ex: "executed ?cs = [(cmp_id cmp, ?p)]"
      by (simp add: unlinks_silent [OF us] component_calls_executed)
    have lp: "last_progress (progress h) ?cs = (if was_cancelled e i then i else Suc i)"
      by (simp add: unlinks_silent [OF us] component_calls_progress)
    have m: "map_of vc' = map_of vc ++ map_of (rev (stores ?cs))"
      using a unfolding st by (simp add: update_conv')
    from a t cs m lp ex show ?thesis
      by (intro exI [of _ ?cs]) (simp split: if_splits)
  qed
qed

lemma export_loop_turns:
  assumes "export_loop e main_cfg output_dir i xs h vc = Inr (fl, h', vc')"
  shows "\<exists>css. length css \<le> length xs \<and> (fl = Continue \<longrightarrow> length css = length xs) \<and>
      (\<forall>j < length css. turn_of e main_cfg output_dir (i + j) (xs ! j) (css ! j)) \<and>
      calls h' = calls h @ concat css \<and>
      map_of vc' = map_of vc ++ map_of (rev (stores (concat css))) \<and>
      move_features h' = move_features h \<and> manifest_file h' = manifest_file h \<and>
      progress h' = last_progress (progress h) (concat css) \<and>
      (fl = Break \<longrightarrow> css \<noteq> [] \<and> was_cancelled e (i + length css - 1) \<and> executed (last css) \<noteq> [])"
  using assms
proof (induction xs arbitrary: i h vc)
  case Nil
  then show ?case by (intro exI [of _ "[]"]) simp
next
  case (Cons x xs)
  from Cons.prems obtain fl1 h1 vc1 where
    s: "export_step e main_cfg output_dir i x h vc = Inr (fl1, h1, vc1)"
    by (auto split: sum.splits)
  from export_step_turn [OF s] obtain cs where
    t: "turn_of e main_cfg output_dir i x cs" and c: "calls h1 = calls h @ cs" and
    m: "map_of vc1 = map_of vc ++ map_of (rev (stores cs))" and
    mf: "move_features h1 = move_features h" "manifest_file h1 = manifest_file h" and
    p: "progress h1 = last_progress (progress h) cs" and
    b: "fl1 = Break \<longrightarrow> was_cancelled e i \<and> executed cs \<noteq> []"
    by blast
  show ?case
  proof (cases "fl1 = Break")
    case True
    with Cons.prems s have "fl = Break" "h' = h1" "vc' = vc1" by simp_all
    with t c m mf p b True show ?thesis
      by (intro exI [of _ "[cs]"]) simp
  next
    case False
    with Cons.prems s have r: "export_loop e main_cfg output_dir (Suc i) xs h1 vc1 = Inr (fl, h', vc')"
      by simp
    from Cons.IH [OF r] obtain css where
      l: "length css \<le> length xs" "fl = Continue \<longrightarrow> length css = length xs" and
      ts: "\<forall>j < length css. turn_of e main_cfg output_dir (Suc i + j) (xs ! j) (css ! j)" and
      c': "calls h' = calls h1 @ concat css" and
      m': "map_of vc' = map_of vc1 ++ map_of (rev (stores (concat css)))" and
      mf': "move_features h' = move_features h1" "manifest_file h' = manifest_file h1" and
      p': "progress h' = last_progress (progress h1) (concat css)" and
      b': "fl = Break \<longrightarrow> css \<noteq> [] \<and> was_cancelled e (Suc i + length css - 1) \<and> executed (last css) \<noteq> []"
      by blast
    have ts': "\<forall>j < length (cs # css). turn_of e main_cfg output_dir (i + j) ((x # xs) ! j) ((cs # css) ! j)"
    proof (intro allI impI)
      fix j assume "j < length (cs # css)"
      then show "turn_of e main_cfg output_dir (i + j) ((x # xs) ! j) ((cs # css) ! j)"
        using t ts by (cases j) simp_all
    qed
    have mm: "map_of vc' = map_of vc ++ map_of (rev (stores (concat (cs # css))))"
      by (simp add: m' m)
    have bb: "fl = Break \<longrightarrow> cs # css \<noteq> [] \<and> was_cancelled e (i + length (cs # css) - 1) \<and>
        executed (last (cs # css)) \<noteq> []"
      using b' by auto
    from l ts' c c' mm mf mf' p p' bb show ?thesis
      by (intro exI [of _ "cs # css"]) simp
  qed
qed

lemma export_Inr:
  assumes "export e main_cfg output_dir rootOcc h = Inr h'"
  shows "\<exists>fl h1 vc1.
     export_loop e main_cfg output_dir 0 (selected main_cfg rootOcc)
       (call (Show (length (selected main_cfg rootOcc))) h) (loaded_manifest h) = Inr (fl, h1, vc1) \<and>
     h' = (call Hide h1)\<lparr>manifest_file := Some vc1\<rparr>"
  using assms by (auto simp: export_def Let_def loaded_manifest_def split: sum.splits)

lemma export_turns:
  assumes "export e main_cfg output_dir rootOcc h = Inr h'"
  shows "\<exists>css vc'.
      (length css = length (selected main_cfg rootOcc) \<or>
       (css \<noteq> [] \<and> length css \<le> length (selected main_cfg rootOcc) \<and>
        was_cancelled e (length css - 1) \<and> executed (last css) \<noteq> [])) \<and>
      (\<forall>j < length css. turn_of e main_cfg output_dir j (selected main_cfg rootOcc ! j) (css ! j)) \<and>
      new_calls h h' = [Show (length (selected main_cfg rootOcc))] @ concat css @ [Hide] \<and>
      manifest_file h' = Some vc' \<and>
      map_of vc' = map_of (loaded_manifest h) ++ map_of (rev (stores (concat css))) \<and>
      move_features h' = move_features h \<and>
      progress h' = last_progress (progress h) (concat css)"
proof -
  let ?sel = "selected main_cfg rootOcc"
  from export_Inr [OF assms] obtain fl h1 vc1 where
    l: "export_loop e main_cfg output_dir 0 ?sel (call (Show (length ?sel)) h) (loaded_manifest h) =
          Inr (fl, h1, vc1)" and
    h': "h' = (call Hide h1)\<lparr>manifest_file := Some vc1\<rparr>" by blast
  from export_loop_turns [OF l] obtain css where
    a: "length css \<le> length ?sel" "fl = Continue \<longrightarrow> length css = length ?sel" and
    t: "\<forall>j < length css. turn_of e main_cfg output_dir (0 + j) (?sel ! j) (css ! j)" and
    c: "calls h1 = calls (call (Show (length ?sel)) h) @ concat css" and
    m: "map_of vc1 = map_of (loaded_manifest h) ++ map_of (rev (stores (concat css)))" and
    mf: "move_features h1 = move_features (call (Show (length ?sel)) h)" and
    p: "progress h1 = last_progress (progress (call (Show (length ?sel)) h)) (concat css)" and
    b: "fl = Break \<longrightarrow> css \<noteq> [] \<and> was_cancelled e (0 + length css - 1) \<and> executed (last css) \<noteq> []"
    by blast
  have len: "length css = length ?sel \<or>
       (css \<noteq> [] \<and> length css \<le> length ?sel \<and> was_cancelled e (length css - 1) \<and>
        executed (last css) \<noteq> [])"
    using a b by (cases fl) simp_all
  have nc: "new_calls h h' = [Show (length ?sel)] @ concat css @ [Hide]"
    using c by (simp add: h' new_calls_def)
  from len t nc m mf p show ?thesis
    by (intro exI [of _ css] exI [of _ vc1]) (simp add: h')
qed

lemma turn_of_stores:
  assumes "turn_of e main_cfg output_dir i x cs" and "(k, v) \<in> set (stores cs)"
  shows "is_entry v \<and> item v ''component'' = Inr (JStr (cmp_name (snd x))) \<and>
     item v ''fromDocument'' = Inr (JStr (root_comp_name e)) \<and>
     item v ''changed'' = Inr (JStr (now e i)) \<and>
     (\<exists>filename. file_names (fst x) main_cfg = Inr (k, filename) \<and>
        item v ''filename'' = Inr (JStr (path_join e output_dir filename)) \<and>
        stores cs = [(k, v)] \<and>
        executed cs = [(cmp_id (snd x), path_join e output_dir filename)])"
proof -
  from assms(1) obtain file_key filename where
    n: "file_names (fst x) main_cfg = Inr (file_key, filename)" and
    d: "cs = [SetProgress i] \<or>
         (valid_up (fst x) \<and>
          (\<exists>us h. (\<forall>c \<in> set us. \<exists>p. c = Unlink p) \<and>
             cs = [SetProgress i] @ us @
               component_calls e (fst x) (snd x) i file_key (path_join e output_dir filename) h))"
    unfolding turn_of_def by blast
  from d assms(2) obtain us h where us: "\<forall>c \<in> set us. \<exists>p. c = Unlink p" and
    cs: "cs = [SetProgress i] @ us @
               component_calls e (fst x) (snd x) i file_key (path_join e output_dir filename) h"
    by auto
  let ?p = "path_join e output_dir filename"
  have st: "stores cs = [(file_key, new_entry e (snd x) ?p i h)]"
    unfolding cs by (simp add: unlinks_silent [OF us] component_calls_stores)
  have ex: "executed cs = [(cmp_id (snd x), ?p)]"
    unfolding cs by (simp add: unlinks_silent [OF us] component_calls_executed)
  from assms(2) st have kv: "k = file_key" "v = new_entry e (snd x) ?p i h" by simp_all
  have "item v ''component'' = Inr (JStr (cmp_name (snd x)))"
    "item v ''fromDocument'' = Inr (JStr (root_comp_name e))"
    "item v ''changed'' = Inr (JStr (now e i))"
    "item v ''filename'' = Inr (JStr ?p)"
    by (simp_all add: kv new_entry_def item_def)
  moreover have "is_entry v" unfolding kv by (rule is_entry_new_entry)
  ultimately show ?thesis using n st ex kv by auto
qed

lemma turn_of_executed:
  assumes "turn_of e main_cfg output_dir i x cs" and "(c, p) \<in> set (executed cs)"
  shows "\<exists>k v. stores cs = [(k, v)] \<and> executed cs = [(c, p)] \<and> c = cmp_id (snd x)"
proof -
  from assms(1) obtain file_key filename where
    d: "cs = [SetProgress i] \<or>
         (valid_up (fst x) \<and>
          (\<exists>us h. (\<forall>c \<in> set us. \<exists>p. c = Unlink p) \<and>
             cs = [SetProgress i] @ us @
               component_calls e (fst x) (snd x) i file_key (path_join e output_dir filename) h))"
    unfolding turn_of_def by blast
  from d assms(2) obtain us h where us: "\<forall>c \<in> set us. \<exists>p. c = Unlink p" and
    cs: "cs = [SetProgress i] @ us @
               component_calls e (fst x) (snd x) i file_key (path_join e output_dir filename) h"
    by auto
  have st: "stores cs = [(file_key, new_entry e (snd x) (path_join e output_dir filename) i h)]"
    unfolding cs by (simp add: unlinks_silent [OF us] component_calls_stores)
  have ex: "executed cs = [(cmp_id (snd x), path_join e output_dir filename)]"
    unfolding cs by (simp add: unlinks_silent [OF us] component_calls_executed)
  from assms(2) st ex show ?thesis by auto
qed

lemma stores_concat: "set (stores (concat css)) = (\<Union>cs \<in> set css. set (stores cs))"
  by (induction css) simp_all

lemma executed_concat: "set (executed (concat css)) = (\<Union>cs \<in> set css. set (executed cs))"
  by (induction css) simp_all

lemma export_step_exported:
  assumes "file_names cfg main_cfg = Inr (file_key, filename)"
    and "export_step e main_cfg output_dir i (cfg, cmp) h vc = Inr (fl, h', vc')"
    and "executed (new_calls h h') \<noteq> []"
  shows "stores (new_calls h h') = [(file_key, new_entry e cmp (path_join e output_dir filename) i h)] \<and>
     executed (new_calls h h') = [(cmp_id cmp, path_join e output_dir filename)] \<and>
     vc' = AList.update file_key (new_entry e cmp (path_join e output_dir filename) i h) vc"
proof -
  let ?p = "path_join e output_dir filename"
  from export_step_shape [OF assms(2)] assms(1)
  have d: "(fl = Continue \<and> h' = set_progress i h \<and> vc' = vc) \<or>
      (vc' = AList.update file_key (new_entry e cmp ?p i h) vc \<and>
       (\<exists>us. (\<forall>c \<in> set us. \<exists>p. c = Unlink p) \<and>
          calls h' = calls h @ [SetProgress i] @ us @ component_calls e cfg cmp i file_key ?p h))"
    by auto
  then show ?thesis
  proof
    assume "fl = Continue \<and> h' = set_progress i h \<and> vc' = vc"
    then have "executed (new_calls h h') = []" by (simp add: new_calls_def)
    with assms(3) show ?thesis by simp
  next
    assume a: "vc' = AList.update file_key (new_entry e cmp ?p i h) vc \<and>
       (\<exists>us. (\<forall>c \<in> set us. \<exists>p. c = Unlink p) \<and>
          calls h' = calls h @ [SetProgress i] @ us @ component_calls e cfg cmp i file_key ?p h)"
    then obtain us where us: "\<forall>c \<in> set us. \<exists>p. c = Unlink p" and
      cs: "calls h' = calls h @ [SetProgress i] @ us @ component_calls e cfg cmp i file_key ?p h"
      by blast
    from cs have nc: "new_calls h h' = [SetProgress i] @ us @ component_calls e cfg cmp i file_key ?p h"
      by (rule new_calls_append)
    have "stores (new_calls h h') = [(file_key, new_entry e cmp ?p i h)]"
      unfolding nc by (simp add: unlinks_silent [OF us] component_calls_stores)
    moreover have "executed (new_calls h h') = [(cmp_id cmp, ?p)]"
      unfolding nc by (simp add: unlinks_silent [OF us] component_calls_executed)
    ultimately show ?thesis using a by simp
  qed
qed







lemma UN_nth: "y \<in> (\<Union>cs \<in> set css. S cs) \<Longrightarrow> \<exists>j < length css. y \<in> S (css ! j)"
proof -
  assume "y \<in> (\<Union>cs \<in> set css. S cs)"
  then obtain cs where "cs \<in> set css" "y \<in> S cs" by blast
  moreover from this(1) obtain j where "j < length css" "css ! j = cs"
    unfolding in_set_conv_nth by blast
  ultimately show ?thesis by blast
qed

lemma nth_UN: "j < length css \<Longrightarrow> y \<in> S (css ! j) \<Longrightarrow> y \<in> (\<Union>cs \<in> set css. S cs)"
  using nth_mem [of j css] by blast

lemma export_manifest:
  assumes "export e main_cfg output_dir rootOcc h = Inr h'"
  shows "\<exists>css vc'. manifest_file h' = Some vc' \<and>
     map_of vc' = map_of (loaded_manifest h) ++ map_of (rev (stores (new_calls h h'))) \<and>
     stores (new_calls h h') = stores (concat css) \<and>
     executed (new_calls h h') = executed (concat css) \<and>
     reorientation (new_calls h h') = reorientation (concat css) \<and>
     length css \<le> length (selected main_cfg rootOcc) \<and>
     (\<forall>j < length css. turn_of e main_cfg output_dir j (selected main_cfg rootOcc ! j) (css ! j)) \<and>
     move_features h' = move_features h"
proof -
  from export_turns [OF assms] obtain css vc' where
    l: "length css = length (selected main_cfg rootOcc) \<or>
       (css \<noteq> [] \<and> length css \<le> length (selected main_cfg rootOcc) \<and>
        was_cancelled e (length css - 1) \<and> executed (last css) \<noteq> [])" and
    t: "\<forall>j < length css. turn_of e main_cfg output_dir j (selected main_cfg rootOcc ! j) (css ! j)" and
    nc: "new_calls h h' = [Show (length (selected main_cfg rootOcc))] @ concat css @ [Hide]" and
    m: "manifest_file h' = Some vc'"
       "map_of vc' = map_of (loaded_manifest h) ++ map_of (rev (stores (concat css)))" and
    mf: "move_features h' = move_features h"
    by (elim exE conjE)
  from l have le: "length css \<le> length (selected main_cfg rootOcc)" by auto
  have s: "stores (new_calls h h') = stores (concat css)"
    "executed (new_calls h h') = executed (concat css)"
    "reorientation (new_calls h h') = reorientation (concat css)"
    unfolding nc by simp_all
  from m s le t mf show ?thesis
    by (intro exI [of _ css] exI [of _ vc']) simp
qed

lemma export_stored:
  assumes "export e main_cfg output_dir rootOcc h = Inr h'"
    and "(k, v) \<in> set (stores (new_calls h h'))"
  shows "\<exists>j < length (selected main_cfg rootOcc). \<exists>filename.
     is_entry v \<and>
     item v ''component'' = Inr (JStr (cmp_name (snd (selected main_cfg rootOcc ! j)))) \<and>
     item v ''fromDocument'' = Inr (JStr (root_comp_name e)) \<and>
     item v ''changed'' = Inr (JStr (now e j)) \<and>
     file_names (fst (selected main_cfg rootOcc ! j)) main_cfg = Inr (k, filename) \<and>
     item v ''filename'' = Inr (JStr (path_join e output_dir filename)) \<and>
     (cmp_id (snd (selected main_cfg rootOcc ! j)), path_join e output_dir filename)
       \<in> set (executed (new_calls h h'))"
proof -
  let ?sel = "selected main_cfg rootOcc"
  from export_manifest [OF assms(1)] obtain css where
    s: "stores (new_calls h h') = stores (concat css)" and
    x: "executed (new_calls h h') = executed (concat css)" and
    le: "length css \<le> length ?sel" and
    t: "\<forall>j < length css. turn_of e main_cfg output_dir j (?sel ! j) (css ! j)"
    by (elim exE conjE)
  from assms(2) s have "(k, v) \<in> (\<Union>cs \<in> set css. set (stores cs))"
    by (simp add: stores_concat)
  from UN_nth [OF this] obtain j where j: "j < length css" "(k, v) \<in> set (stores (css ! j))"
    by blast
  from t j(1) have tj: "turn_of e main_cfg output_dir j (?sel ! j) (css ! j)" by simp
  from turn_of_stores [OF tj j(2)] obtain filename where
    f: "is_entry v" "item v ''component'' = Inr (JStr (cmp_name (snd (?sel ! j))))"
      "item v ''fromDocument'' = Inr (JStr (root_comp_name e))"
      "item v ''changed'' = Inr (JStr (now e j))"
      "file_names (fst (?sel ! j)) main_cfg = Inr (k, filename)"
      "item v ''filename'' = Inr (JStr (path_join e output_dir filename))"
      "executed (css ! j) = [(cmp_id (snd (?sel ! j)), path_join e output_dir filename)]"
    by (elim exE conjE)
  from f(7) have "(cmp_id (snd (?sel ! j)), path_join e output_dir filename) \<in> set (executed (css ! j))"
    by simp
  from nth_UN [OF j(1), of _ "\<lambda>cs. set (executed cs)", OF this]
  have "(cmp_id (snd (?sel ! j)), path_join e output_dir filename)
       \<in> set (executed (new_calls h h'))"
    unfolding x executed_concat .
  with f j(1) le show ?thesis
    by (intro exI [of _ j] exI [of _ filename]) simp
qed

lemma export_executed:
  assumes "export e main_cfg output_dir rootOcc h = Inr h'"
    and "(c, p) \<in> set (executed (new_calls h h'))"
  shows "\<exists>j < length (selected main_cfg rootOcc). \<exists>k v filename.
     c = cmp_id (snd (selected main_cfg rootOcc ! j)) \<and>
     file_names (fst (selected main_cfg rootOcc ! j)) main_cfg = Inr (k, filename) \<and>
     p = path_join e output_dir filename \<and>
     (k, v) \<in> set (stores (new_calls h h')) \<and>
     item v ''filename'' = Inr (JStr p)"
proof -
  let ?sel = "selected main_cfg rootOcc"
  from export_manifest [OF assms(1)] obtain css where
    s: "stores (new_calls h h') = stores (concat css)" and
    x: "executed (new_calls h h') = executed (concat css)" and
    le: "length css \<le> length ?sel" and
    t: "\<forall>j < length css. turn_of e main_cfg output_dir j (?sel ! j) (css ! j)"
    by (elim exE conjE)
  from assms(2) x have "(c, p) \<in> (\<Union>cs \<in> set css. set (executed cs))"
    by (simp add: executed_concat)
  from UN_nth [OF this] obtain j where j: "j < length css" "(c, p) \<in> set (executed (css ! j))"
    by blast
  from t j(1) have tj: "turn_of e main_cfg output_dir j (?sel ! j) (css ! j)" by simp
  from turn_of_executed [OF tj j(2)] obtain k v where
    kv: "stores (css ! j) = [(k, v)]" "executed (css ! j) = [(c, p)]" "c = cmp_id (snd (?sel ! j))"
    by (elim exE conjE)
  from kv(1) have mem: "(k, v) \<in> set (stores (css ! j))" by simp
  from turn_of_stores [OF tj mem] obtain filename where
    f: "file_names (fst (?sel ! j)) main_cfg = Inr (k, filename)"
      "item v ''filename'' = Inr (JStr (path_join e output_dir filename))"
      "executed (css ! j) = [(cmp_id (snd (?sel ! j)), path_join e output_dir filename)]"
    by (elim exE conjE)
  from f(3) kv(2) have p: "p = path_join e output_dir filename" by simp
  from nth_UN [OF j(1), of _ "\<lambda>cs. set (stores cs)", OF mem]
  have "(k, v) \<in> set (stores (new_calls h h'))"
    unfolding s stores_concat .
  moreover from j(1) le have "j < length ?sel" by simp
  ultimately show ?thesis using kv(3) f(1,2) p by blast
qed

lemma map_of_rev_absent: "k \<notin> fst ` set xs \<Longrightarrow> map_of (rev xs) k = None"
  by (simp add: map_of_eq_None_iff)

lemma map_of_rev_present: "k \<in> fst ` set xs \<Longrightarrow> \<exists>v. map_of (rev xs) k = Some v \<and> (k, v) \<in> set xs"
proof -
  assume "k \<in> fst ` set xs"
  then have "map_of (rev xs) k \<noteq> None" by (simp add: map_of_eq_None_iff)
  then obtain v where v: "map_of (rev xs) k = Some v" by auto
  from map_of_SomeD [OF v] have "(k, v) \<in> set xs" by simp
  with v show ?thesis by blast
qed
subsection \<open>The manifest key\<close>

text \<open>
  Claim C5, as stated, fails. Exporting \<open>Base\<close> with \<^verbatim>\<open>to = "base"\<close> and format
  \<^verbatim>\<open>stl\<close> into \<^verbatim>\<open>out\<close> stores the entry under the key \<^verbatim>\<open>base\<close> and writes the
  file \<^verbatim>\<open>out/base.stl\<close>, named \<^verbatim>\<open>base.stl\<close>: the key is not the file's name.
\<close>

theorem C5_key_differs_from_file_name_counterexample:
  "file_names base_cfg example_main = Inr (''base'', ''base.stl'') \<and>
   map_sum id (map fst \<circ> stores \<circ> calls)
     (export example_env example_main ''out'' (IsComponent base_cmp) fresh_host) = Inr [''base''] \<and>
   map_sum id (map snd \<circ> executed \<circ> calls)
     (export example_env example_main ''out'' (IsComponent base_cmp) fresh_host) = Inr [''out/base.stl'']"
proof -
  from map_sum_Inr [OF run_fresh_calls] obtain h' where
    "export example_env example_main ''out'' (IsComponent base_cmp) fresh_host = Inr h'"
    and "calls h' = [Show 1, SetProgress 0,
          Store ''base'' (JObj [(''component'', JStr ''Base''), (''filename'', JStr ''out/base.stl''),
            (''revisionId'', JStr ''r1''), (''fromDocument'', JStr ''Assembly''),
            (''changed'', JStr ''2024-06-01T00:00:00'')]),
          MakeParent ''out/base.stl'', Execute 1 ''out/base.stl'', SetProgress 1, Hide]"
    by blast
  then show ?thesis by (simp add: base_names)
qed

text \<open>
  Claim C5, amended. The key is the configured \<^verbatim>\<open>to\<close> with the extension text cut off
  its end when it ends in it (nothing is left of it when the extension is empty); the
  file name is the key, then \<^verbatim>\<open>_x\<close> and the count when a count is set, then a dot and
  the extension, so the two always differ. A turn that exports the component stores
  its entry under that key and writes the file of that name in the output directory;
  the entry's \<^verbatim>\<open>filename\<close> field holds the file's path.
\<close>

theorem C5_manifest_key:
  assumes "file_names cfg main_cfg = Inr (file_key, filename)"
  shows "(\<exists>file_to ext. to cfg = Some file_to \<and> py_or (fmt cfg) (cfg_fmt main_cfg) = Some ext \<and>
       file_key = (if endswith file_to ext
                   then (if ext = [] then [] else take (length file_to - length ext) file_to)
                   else file_to) \<and>
       filename = file_key @ (case count cfg of None \<Rightarrow> [] | Some n \<Rightarrow> ''_x'' @ str_of_int n) @
                    ''.'' @ ext) \<and>
     filename \<noteq> file_key \<and>
     (export_step e main_cfg output_dir i (cfg, cmp) h vc = Inr (fl, h', vc') \<and>
      executed (new_calls h h') \<noteq> [] \<longrightarrow>
        stores (new_calls h h') = [(file_key, new_entry e cmp (path_join e output_dir filename) i h)] \<and>
        executed (new_calls h h') = [(cmp_id cmp, path_join e output_dir filename)] \<and>
        vc' = AList.update file_key (new_entry e cmp (path_join e output_dir filename) i h) vc \<and>
        item (new_entry e cmp (path_join e output_dir filename) i h) ''filename'' =
          Inr (JStr (path_join e output_dir filename)))"
proof (intro conjI impI)
  show "\<exists>file_to ext. to cfg = Some file_to \<and> py_or (fmt cfg) (cfg_fmt main_cfg) = Some ext \<and>
       file_key = (if endswith file_to ext
                   then (if ext = [] then [] else take (length file_to - length ext) file_to)
                   else file_to) \<and>
       filename = file_key @ (case count cfg of None \<Rightarrow> [] | Some n \<Rightarrow> ''_x'' @ str_of_int n) @
                    ''.'' @ ext"
    using assms by (rule file_names_shape)
  show "filename \<noteq> file_key" using assms by (rule file_names_differ)
  show "item (new_entry e cmp (path_join e output_dir filename) i h) ''filename'' =
          Inr (JStr (path_join e output_dir filename))"
    by (simp add: new_entry_def item_def)
next
  assume a: "export_step e main_cfg output_dir i (cfg, cmp) h vc = Inr (fl, h', vc') \<and>
      executed (new_calls h h') \<noteq> []"
  then have s: "export_step e main_cfg output_dir i (cfg, cmp) h vc = Inr (fl, h', vc')"
    and x: "executed (new_calls h h') \<noteq> []" by simp_all
  from export_step_exported [OF assms s x]
  show "stores (new_calls h h') = [(file_key, new_entry e cmp (path_join e output_dir filename) i h)]"
    and "executed (new_calls h h') = [(cmp_id cmp, path_join e output_dir filename)]"
    and "vc' = AList.update file_key (new_entry e cmp (path_join e output_dir filename) i h) vc"
    by simp_all
qed

text \<open>The theorem at the export of \<open>Base\<close> into an empty directory.\<close>

theorem C5_manifest_key_witness:
  "file_names base_cfg example_main = Inr (''base'', ''base.stl'') \<and> ''base.stl'' \<noteq> ''base'' \<and>
   (\<exists>fl h' vc'. export_step example_env example_main ''out'' 0 (base_cfg, base_cmp) fresh_host [] =
        Inr (fl, h', vc') \<and>
      executed (new_calls fresh_host h') = [(1, ''out/base.stl'')] \<and>
      map fst (stores (new_calls fresh_host h')) = [''base''] \<and>
      map fst vc' = [''base''])"
proof -
  from step_fresh obtain fl h' vc' where
    s: "export_step example_env example_main ''out'' 0 (base_cfg, base_cmp) fresh_host [] = Inr (fl, h', vc')"
    and c: "new_calls fresh_host h' =
       [SetProgress 0,
        Store ''base'' (JObj [(''component'', JStr ''Base''), (''filename'', JStr ''out/base.stl''),
          (''revisionId'', JStr ''r1''), (''fromDocument'', JStr ''Assembly''),
          (''changed'', JStr ''2024-06-01T00:00:00'')]),
        MakeParent ''out/base.stl'', Execute 1 ''out/base.stl'', SetProgress 1]"
    by blast
  from c have x: "executed (new_calls fresh_host h') \<noteq> []" by simp
  from C5_manifest_key [OF base_names, of example_env "''out''" 0 base_cmp fresh_host "[]" fl h' vc'] s x
  have "executed (new_calls fresh_host h') = [(1, ''out/base.stl'')]"
    and "map fst (stores (new_calls fresh_host h')) = [''base'']"
    and "map fst vc' = [''base'']"
    by (simp_all add: example_fields)
  with s base_names show ?thesis by auto
qed
subsection \<open>The loop\<close>





end
